theory Spec2Isabelle
  imports Main "HOL-Library.AList"
begin

section \<open>JavaScript values\<close>

text \<open>
  The change formatter works on documents: plain objects whose fields hold
  \<^verbatim>\<open>undefined\<close>, \<^verbatim>\<open>null\<close>, booleans, numbers, strings, arrays and plain objects. A number
  is an integer or \<^verbatim>\<open>NaN\<close>, the one number that is not \<^verbatim>\<open>===\<close> to itself; strings are
  lists of characters. An object is the list of its own enumerable properties in the order
  \<^verbatim>\<open>Object.keys\<close> lists them, and a property is read by its first entry.

  Arrays and objects are heap cells: \<^verbatim>\<open>===\<close> compares two of them by identity, not by
  content. Each carries the reference of its cell, so that the same document passed twice
  and two equal copies of it are different inputs. The objects the formatter allocates
  itself carry \<open>fresh\<close>; the code never compares the identity of one of them.

  A plain object inherits the members of \<^verbatim>\<open>Object.prototype\<close>, and \<^verbatim>\<open>obj[key]\<close> reads
  them when the object has no property of its own under the key. So the values include
  the functions \<^verbatim>\<open>Object.prototype\<close> holds, each known by the name it is held under, and
  \<^verbatim>\<open>Object.prototype\<close> itself, which \<^verbatim>\<open>obj['__proto__']\<close> reads.
\<close>

type_synonym ref = nat

datatype jv =
    JUndefined
  | JNull
  | JBool bool
  | JNum int
  | JNaN
  | JStr string
  | JArr ref "jv list"
  | JObj ref "(string \<times> jv) list"
  | JFunction string
  | JObjectPrototype

definition fresh :: ref where
  "fresh = 0"

datatype jstype = TUndefined | TObject | TBoolean | TNumber | TString | TFunction

text \<open>\<^verbatim>\<open>typeof v\<close>; \<^verbatim>\<open>typeof null\<close> is \<^verbatim>\<open>'object'\<close>, and so is an array's.\<close>

fun typeof :: "jv \<Rightarrow> jstype" where
  "typeof JUndefined = TUndefined"
| "typeof JNull = TObject"
| "typeof (JBool b) = TBoolean"
| "typeof (JNum n) = TNumber"
| "typeof JNaN = TNumber"
| "typeof (JStr s) = TString"
| "typeof (JArr r xs) = TObject"
| "typeof (JObj r kvs) = TObject"
| "typeof (JFunction name) = TFunction"
| "typeof JObjectPrototype = TObject"

text \<open>\<^verbatim>\<open>a === b\<close>: primitives by value, but \<^verbatim>\<open>NaN === NaN\<close> is false; arrays and
  objects by reference; a built-in function or object is itself and no other.\<close>

fun strict_eq :: "jv \<Rightarrow> jv \<Rightarrow> bool" where
  "strict_eq JUndefined JUndefined = True"
| "strict_eq JNull JNull = True"
| "strict_eq (JBool a) (JBool b) = (a = b)"
| "strict_eq (JNum a) (JNum b) = (a = b)"
| "strict_eq (JStr a) (JStr b) = (a = b)"
| "strict_eq (JArr r xs) (JArr r' ys) = (r = r')"
| "strict_eq (JObj r kvs) (JObj r' kvs') = (r = r')"
| "strict_eq (JFunction name) (JFunction name') = (name = name')"
| "strict_eq JObjectPrototype JObjectPrototype = True"
| "strict_eq a b = False"

text \<open>The comparison of \<^verbatim>\<open>Array.prototype.includes\<close>: as \<^verbatim>\<open>===\<close>, but \<^verbatim>\<open>NaN\<close> is the same
  value as \<^verbatim>\<open>NaN\<close>.\<close>

definition same_value_zero :: "jv \<Rightarrow> jv \<Rightarrow> bool" where
  "same_value_zero a b = (strict_eq a b \<or> (a = JNaN \<and> b = JNaN))"

text \<open>\<^verbatim>\<open>v == null\<close>: true of \<^verbatim>\<open>null\<close> and \<^verbatim>\<open>undefined\<close> only.\<close>

fun is_nullish :: "jv \<Rightarrow> bool" where
  "is_nullish JUndefined = True"
| "is_nullish JNull = True"
| "is_nullish v = False"

text \<open>\<^verbatim>\<open>Boolean(v)\<close>, the test of \<^verbatim>\<open>!v\<close>, \<^verbatim>\<open>a && b\<close> and \<^verbatim>\<open>a || b\<close>.\<close>

fun truthy :: "jv \<Rightarrow> bool" where
  "truthy JUndefined = False"
| "truthy JNull = False"
| "truthy (JBool b) = b"
| "truthy (JNum n) = (n \<noteq> 0)"
| "truthy JNaN = False"
| "truthy (JStr s) = (s \<noteq> [])"
| "truthy (JArr r xs) = True"
| "truthy (JObj r kvs) = True"
| "truthy (JFunction name) = True"
| "truthy JObjectPrototype = True"

text \<open>\<^verbatim>\<open>Array.isArray(v)\<close>.\<close>

fun is_array :: "jv \<Rightarrow> bool" where
  "is_array (JArr r xs) = True"
| "is_array v = False"

text \<open>The elements of an array (of nothing else is it asked).\<close>

fun items :: "jv \<Rightarrow> jv list" where
  "items (JArr r xs) = xs"
| "items v = []"

subsection \<open>Decimal numerals\<close>

definition digit_char :: "nat \<Rightarrow> char" where
  "digit_char d = ''0123456789abcdef'' ! d"

fun show_nat :: "nat \<Rightarrow> string" where
  "show_nat n = (if n < 10 then [digit_char n] else show_nat (n div 10) @ [digit_char (n mod 10)])"

declare show_nat.simps [simp del]

definition show_int :: "int \<Rightarrow> string" where
  "show_int i = (if i < 0 then CHR ''-'' # show_nat (nat (- i)) else show_nat (nat i))"

subsection \<open>Properties\<close>

text \<open>
  \<^verbatim>\<open>Object.keys(v)\<close>: the own enumerable property names. It throws a TypeError on
  \<^verbatim>\<open>null\<close> and \<^verbatim>\<open>undefined\<close> (the result \<open>None\<close>); a boolean and a number have none, a
  string and an array have their indices. No member of \<^verbatim>\<open>Object.prototype\<close> is
  enumerable, and a built-in function has no enumerable property.
\<close>

fun object_keys :: "jv \<Rightarrow> string list option" where
  "object_keys JUndefined = None"
| "object_keys JNull = None"
| "object_keys (JBool b) = Some []"
| "object_keys (JNum n) = Some []"
| "object_keys JNaN = Some []"
| "object_keys (JStr s) = Some (map show_nat [0..<length s])"
| "object_keys (JArr r xs) = Some (map show_nat [0..<length xs])"
| "object_keys (JObj r kvs) = Some (map fst kvs)"
| "object_keys (JFunction name) = Some []"
| "object_keys JObjectPrototype = Some []"

text \<open>The keys of a value known to be a non-null object.\<close>

definition keys_of :: "jv \<Rightarrow> string list" where
  "keys_of v = (case object_keys v of None \<Rightarrow> [] | Some ks \<Rightarrow> ks)"

text \<open>The names under which \<^verbatim>\<open>Object.prototype\<close> holds a function; under
  \<^verbatim>\<open>__proto__\<close> it holds an accessor.\<close>

definition object_prototype_functions :: "string list" where
  "object_prototype_functions =
     [''constructor'', ''__defineGetter__'', ''__defineSetter__'', ''hasOwnProperty'',
      ''__lookupGetter__'', ''__lookupSetter__'', ''isPrototypeOf'', ''propertyIsEnumerable'',
      ''toString'', ''valueOf'', ''toLocaleString'']"

text \<open>What a plain object with no property of its own under \<open>key\<close> reads there: the
  member of \<^verbatim>\<open>Object.prototype\<close>, or \<^verbatim>\<open>undefined\<close>.\<close>

definition inherited :: "string \<Rightarrow> jv" where
  "inherited key =
     (if key = ''__proto__'' then JObjectPrototype
      else if key \<in> set object_prototype_functions then JFunction key
      else JUndefined)"

text \<open>
  \<^verbatim>\<open>v[key]\<close> on a value that is not \<^verbatim>\<open>null\<close> or \<^verbatim>\<open>undefined\<close>. A plain object answers
  with its own property, or else with what it inherits. \<^verbatim>\<open>Object.prototype\<close> answers with
  its own members; its \<^verbatim>\<open>__proto__\<close> is \<^verbatim>\<open>null\<close>. Of an array and a string the indices
  and \<^verbatim>\<open>length\<close> are modelled and no inherited member, of a boolean, a number and a function
  nothing: the statements below read the properties of plain objects only.
\<close>

fun get_prop :: "jv \<Rightarrow> string \<Rightarrow> jv" where
  "get_prop (JObj r kvs) key = (case map_of kvs key of None \<Rightarrow> inherited key | Some v \<Rightarrow> v)"
| "get_prop JObjectPrototype key =
     (if key = ''__proto__'' then JNull
      else if key \<in> set object_prototype_functions then JFunction key
      else JUndefined)"
| "get_prop (JArr r xs) key =
     (case find (\<lambda>i. show_nat i = key) [0..<length xs] of
        Some i \<Rightarrow> xs ! i
      | None \<Rightarrow> if key = ''length'' then JNum (int (length xs)) else JUndefined)"
| "get_prop (JStr s) key =
     (case find (\<lambda>i. show_nat i = key) [0..<length s] of
        Some i \<Rightarrow> JStr [s ! i]
      | None \<Rightarrow> if key = ''length'' then JNum (int (length s)) else JUndefined)"
| "get_prop v key = JUndefined"

text \<open>\<^verbatim>\<open>'id' in v\<close>, asked of non-null objects and arrays only; \<^verbatim>\<open>Object.prototype\<close> has no
  \<^verbatim>\<open>id\<close>.\<close>

fun has_id :: "jv \<Rightarrow> bool" where
  "has_id (JObj r kvs) = (''id'' \<in> set (map fst kvs))"
| "has_id v = False"

text \<open>
  \<^verbatim>\<open>v?.id\<close>: \<^verbatim>\<open>undefined\<close> on \<^verbatim>\<open>null\<close> and \<^verbatim>\<open>undefined\<close>, the property \<^verbatim>\<open>id\<close>
  otherwise (which only a plain object has).
\<close>

fun opt_id :: "jv \<Rightarrow> jv" where
  "opt_id (JObj r kvs) = get_prop (JObj r kvs) ''id''"
| "opt_id v = JUndefined"

text \<open>\<^verbatim>\<open>obj[key] = v\<close> on an object under construction: an existing property keeps its
  place, a new one goes last.\<close>

definition set_prop :: "(string \<times> jv) list \<Rightarrow> string \<Rightarrow> jv \<Rightarrow> (string \<times> jv) list" where
  "set_prop kvs key v = AList.update key v kvs"

text \<open>\<^verbatim>\<open>Array.from(new Set(xs))\<close>: the distinct elements, each at its first occurrence.\<close>

definition new_Set :: "'a list \<Rightarrow> 'a list" where
  "new_Set xs = fold (\<lambda>x acc. if x \<in> set acc then acc else acc @ [x]) xs []"

text \<open>\<^verbatim>\<open>xs.includes(v)\<close>.\<close>

definition array_includes :: "jv list \<Rightarrow> jv \<Rightarrow> bool" where
  "array_includes xs v = list_ex (\<lambda>x. same_value_zero x v) xs"

subsection \<open>JSON.stringify\<close>

text \<open>
  \<^verbatim>\<open>JSON.stringify(v)\<close> is \<^verbatim>\<open>undefined\<close> (here \<open>None\<close>) for \<^verbatim>\<open>undefined\<close> and for a
  function; inside an array these print as \<^verbatim>\<open>null\<close>, and a property whose value is one of
  them is left out. \<^verbatim>\<open>NaN\<close> prints as \<^verbatim>\<open>null\<close>, \<^verbatim>\<open>Object.prototype\<close> as an object with no
  property.
\<close>

definition escape_char :: "char \<Rightarrow> string" where
  "escape_char c =
     (if c = CHR ''\"'' then [CHR 0x5C, CHR ''\"'']
      else if c = CHR 0x5C then [CHR 0x5C, CHR 0x5C]
      else if c = CHR 0x08 then [CHR 0x5C, CHR ''b'']
      else if c = CHR 0x0C then [CHR 0x5C, CHR ''f'']
      else if c = CHR 0x0A then [CHR 0x5C, CHR ''n'']
      else if c = CHR 0x0D then [CHR 0x5C, CHR ''r'']
      else if c = CHR 0x09 then [CHR 0x5C, CHR ''t'']
      else if of_char c < (32 :: nat)
        then [CHR 0x5C, CHR ''u'', CHR ''0'', CHR ''0'',
              digit_char (of_char c div 16), digit_char (of_char c mod 16)]
      else [c])"

definition quote :: "string \<Rightarrow> string" where
  "quote s = [CHR ''\"''] @ concat (map escape_char s) @ [CHR ''\"'']"

fun join :: "string \<Rightarrow> string list \<Rightarrow> string" where
  "join sep [] = []"
| "join sep [x] = x"
| "join sep (x # y # ys) = x @ sep @ join sep (y # ys)"

fun stringify :: "jv \<Rightarrow> string option" where
  "stringify JUndefined = None"
| "stringify JNull = Some ''null''"
| "stringify (JBool b) = Some (if b then ''true'' else ''false'')"
| "stringify (JNum n) = Some (show_int n)"
| "stringify JNaN = Some ''null''"
| "stringify (JStr s) = Some (quote s)"
| "stringify (JArr r xs) =
     Some (''['' @ join '','' (map (\<lambda>x. case stringify x of None \<Rightarrow> ''null'' | Some t \<Rightarrow> t) xs) @ '']'')"
| "stringify (JObj r kvs) =
     Some (''{'' @ join '',''
        (concat (map (\<lambda>(k, v). case stringify v of None \<Rightarrow> [] | Some t \<Rightarrow> [quote k @ '':'' @ t]) kvs))
        @ ''}'')"
| "stringify (JFunction name) = None"
| "stringify JObjectPrototype = Some ''{}''"

section \<open>The identifier classifier\<close>

text \<open>The string a \<^verbatim>\<open>typeof v === 'string'\<close> value holds.\<close>

fun str_of :: "jv \<Rightarrow> string" where
  "str_of (JStr s) = s"
| "str_of v = []"

definition is_hex :: "char \<Rightarrow> bool" where
  "is_hex c = (c \<in> set ''0123456789abcdefABCDEF'')"

definition is_id_char :: "char \<Rightarrow> bool" where
  "is_id_char c =
     (c \<in> set ''abcdefghijklmnopqrstuvwxyzABCDEFGHIJKLMNOPQRSTUVWXYZ0123456789_-'')"

text \<open>Groups of hexadecimal digits of the given lengths, a hyphen between two groups,
  and nothing else: \<^verbatim>\<open>/^[0-9a-f]{n1}-...-[0-9a-f]{nk}$/i\<close>.\<close>

fun hex_groups :: "nat list \<Rightarrow> string \<Rightarrow> bool" where
  "hex_groups [] s = (s = [])"
| "hex_groups [n] s = (length s = n \<and> list_all is_hex s)"
| "hex_groups (n # ns) s =
     (n < length s \<and> list_all is_hex (take n s) \<and> s ! n = CHR ''-''
      \<and> hex_groups ns (drop (Suc n) s))"

definition uuidRegex :: "string \<Rightarrow> bool" where
  "uuidRegex s = hex_groups [8, 4, 4, 4, 12] s"

definition objectIdRegex :: "string \<Rightarrow> bool" where
  "objectIdRegex s = hex_groups [24] s"

definition genericIdRegex :: "string \<Rightarrow> bool" where
  "genericIdRegex s = (8 \<le> length s \<and> list_all is_id_char s)"

definition isUUID :: "string \<Rightarrow> bool" where
  "isUUID str = (uuidRegex str \<or> objectIdRegex str \<or> genericIdRegex str)"

text \<open>One element of a relationship array: an id string, or an object with an \<^verbatim>\<open>id\<close>.\<close>

definition is_relationship_item :: "jv \<Rightarrow> bool" where
  "is_relationship_item item =
     ((typeof item = TString \<and> isUUID (str_of item))
      \<or> (typeof item = TObject \<and> \<not> strict_eq item JNull \<and> has_id item))"

definition isRelationshipField :: "string \<Rightarrow> jv \<Rightarrow> bool" where
  "isRelationshipField key v =
     (if typeof v = TString \<and> isUUID (str_of v) then True
      else if typeof v = TObject \<and> \<not> strict_eq v JNull \<and> has_id v then True
      else if is_array v \<and> length (items v) > 0 then list_all is_relationship_item (items v)
      else False)"

section \<open>The structural differ\<close>

text \<open>The measure by which the two recursions end: a value is larger than what is read
  from it, and \<^verbatim>\<open>Object.prototype\<close> is larger than its members.\<close>

fun rank :: "jv \<Rightarrow> nat" where
  "rank JObjectPrototype = 1"
| "rank v = 2 * size v"

text \<open>\<^verbatim>\<open>deepEqual(a, b, depth, maxDepth)\<close>. Past the depth limit the two serialisations
  are compared. The two loops return false at the first difference.\<close>

function deepEqual :: "jv \<Rightarrow> jv \<Rightarrow> int \<Rightarrow> int \<Rightarrow> bool" where
  "deepEqual a b depth maxDepth =
     (if depth > maxDepth then stringify a = stringify b
      else if strict_eq a b then True
      else if is_nullish a \<or> is_nullish b then strict_eq a b
      else if typeof a \<noteq> typeof b then False
      else if typeof a = TObject then
        (if is_array a \<noteq> is_array b then False
         else if is_array a then
           (if length (items a) \<noteq> length (items b) then False
            else list_all (\<lambda>(x, y). deepEqual x y (depth + 1) maxDepth) (zip (items a) (items b)))
         else
           (let keysA = keys_of a; keysB = keys_of b in
            if length keysA \<noteq> length keysB then False
            else list_all (\<lambda>key. key \<in> set keysB
                    \<and> deepEqual (get_prop a key) (get_prop b key) (depth + 1) maxDepth) keysA))
      else False)"
  by pat_completeness auto
termination
proof -
  have bound: "rank v \<le> Suc (2 * size v)" for v
    by (cases v) auto
  have entry: "map_of kvs k = Some v \<Longrightarrow> size v \<le> size_list (size_prod f size) kvs"
    for kvs :: "(string \<times> jv) list" and k v and f :: "string \<Rightarrow> nat"
    by (induction kvs) (auto split: if_splits)
  have own: "rank v < Suc (Suc (2 * size_list (size_prod f size) kvs))"
    if "map_of kvs k = Some v"
    for kvs :: "(string \<times> jv) list" and k v and f :: "string \<Rightarrow> nat"
    using entry [OF that, of f] bound [of v] by linarith
  have smaller: "rank (get_prop a key) < rank a"
    if "typeof a = TObject" "\<not> is_nullish a" "\<not> is_array a" for a key
    using that
    by (cases a) (auto simp: inherited_def own split: option.splits)
  have elem: "rank x < Suc (Suc (2 * size_list size xs))" if "x \<in> set xs" for x xs
    using size_list_estimation' [OF that order_refl, of size] bound [of x] by linarith
  have item: "rank x < rank a" if "x \<in> set (items a)" for x a
    using that by (cases a) (auto simp: elem)
  show ?thesis
    by (relation "measure (\<lambda>(a, b, depth, maxDepth). rank a)")
       (auto simp: smaller dest: set_zip_leftD item)
qed

declare deepEqual.simps [simp del]

text \<open>
  The test both loops make first on a pair of field values: one side is a string and the
  other an object (or \<^verbatim>\<open>null\<close>, or an array) whose \<^verbatim>\<open>id\<close> is that very string.
\<close>

definition same_relationship :: "jv \<Rightarrow> jv \<Rightarrow> bool" where
  "same_relationship newVal oldVal =
     ((typeof newVal = TString \<and> typeof oldVal = TObject \<and> strict_eq (opt_id oldVal) newVal)
      \<or> (typeof oldVal = TString \<and> typeof newVal = TObject \<and> strict_eq (opt_id newVal) oldVal))"

text \<open>\<^verbatim>\<open>typeof v === 'string' ? v : v?.id\<close>.\<close>

definition id_of :: "jv \<Rightarrow> jv" where
  "id_of v = (if typeof v = TString then v else opt_id v)"

text \<open>The object literal \<^verbatim>\<open>{ old: a, new: b }\<close>.\<close>

definition change_record :: "jv \<Rightarrow> jv \<Rightarrow> jv" where
  "change_record a b = JObj fresh [(''old'', a), (''new'', b)]"

text \<open>
  \<^verbatim>\<open>extractMeaningfulChanges(newValue, oldValue, depth, maxDepth, excludeFields)\<close>. The loop
  over the keys carries \<^verbatim>\<open>result\<close> and \<^verbatim>\<open>hasChanges\<close>; \<^verbatim>\<open>continue\<close> leaves both as
  they are.
\<close>

function extractMeaningfulChanges :: "jv \<Rightarrow> jv \<Rightarrow> int \<Rightarrow> int \<Rightarrow> string list \<Rightarrow> jv" where
  "extractMeaningfulChanges newValue oldValue depth maxDepth excludeFields =
     (if depth > maxDepth then JNull
      else if deepEqual newValue oldValue depth maxDepth then JNull
      else if is_nullish newValue \<or> is_nullish oldValue then newValue
      else if typeof newValue \<noteq> TObject \<or> typeof oldValue \<noteq> TObject then newValue
      else if is_array newValue \<and> is_array oldValue then
        (if length (items newValue) \<noteq> length (items oldValue) then newValue
         else
           let newIds = filter truthy (map id_of (items newValue));
               oldIds = filter truthy (map id_of (items oldValue))
           in
             if length newIds = length oldIds \<and> list_all (array_includes oldIds) newIds then JNull
             else
               let hasChangedItems =
                     list_ex (\<lambda>(item, oldItem).
                         if typeof item = TString \<or> typeof item = TNumber \<or> typeof item = TBoolean
                         then \<not> strict_eq item oldItem
                         else \<not> deepEqual item oldItem (depth + 1) maxDepth)
                       (zip (items newValue) (items oldValue))
               in if hasChangedItems then newValue else JNull)
      else if is_array newValue \<or> is_array oldValue then newValue
      else
        let allKeys = new_Set (keys_of newValue @ keys_of oldValue);
            (result, hasChanges) =
              fold (\<lambda>key (result, hasChanges).
                  if key \<in> set excludeFields then (result, hasChanges)
                  else
                    let newVal = get_prop newValue key;
                        oldVal = get_prop oldValue key
                    in
                      if same_relationship newVal oldVal then (result, hasChanges)
                      else if isRelationshipField key newVal \<or> isRelationshipField key oldVal then
                        (let newId = id_of newVal; oldId = id_of oldVal in
                         if truthy newId \<and> truthy oldId \<and> \<not> strict_eq newId oldId
                         then (set_prop result key (change_record oldId newId), True)
                         else (result, hasChanges))
                      else
                        (let change = extractMeaningfulChanges newVal oldVal (depth + 1) maxDepth
                                        excludeFields
                         in if \<not> strict_eq change JNull
                            then (set_prop result key change, True)
                            else (result, hasChanges)))
                allKeys ([], False)
        in if hasChanges then JObj fresh result else JNull)"
  by pat_completeness auto
termination
proof -
  have bound: "rank v \<le> Suc (2 * size v)" for v
    by (cases v) auto
  have entry: "map_of kvs k = Some v \<Longrightarrow> size v \<le> size_list (size_prod f size) kvs"
    for kvs :: "(string \<times> jv) list" and k v and f :: "string \<Rightarrow> nat"
    by (induction kvs) (auto split: if_splits)
  have own: "rank v < Suc (Suc (2 * size_list (size_prod f size) kvs))"
    if "map_of kvs k = Some v"
    for kvs :: "(string \<times> jv) list" and k v and f :: "string \<Rightarrow> nat"
    using entry [OF that, of f] bound [of v] by linarith
  have smaller: "rank (get_prop a key) < rank a"
    if "typeof a = TObject" "\<not> is_nullish a" "\<not> is_array a" for a key
    using that
    by (cases a) (auto simp: inherited_def own split: option.splits)
  show ?thesis
    by (relation "measure (\<lambda>(newValue, oldValue, depth, maxDepth, excludeFields). rank newValue)")
       (auto simp: smaller)
qed

declare extractMeaningfulChanges.simps [simp del]

section \<open>The change formatter\<close>

text \<open>
  \<^verbatim>\<open>ChangeFormatterOptions\<close>: every property is optional, \<open>None\<close> is a property that is
  not given. \<^verbatim>\<open>{ ...defaults, ...options }\<close> takes from \<^verbatim>\<open>options\<close> each property it has
  and the others from the defaults.
\<close>

record ChangeFormatterOptions =
  excludeFields :: "string list option"
  meaningfulChangesOnly :: "bool option"
  maxDepth :: "int option"

definition defaultChangeFormatterOptions :: ChangeFormatterOptions where
  "defaultChangeFormatterOptions =
     \<lparr> excludeFields = Some
         [''id'', ''createdAt'', ''updatedAt'', ''createdBy'', ''updatedBy'',
          ''sessions'', ''password'', ''token'', ''secret'', ''hash'', ''salt'',
          ''lockUntil'', ''loginAttempts'', ''resetPasswordToken'', ''resetPasswordExpiration'',
          ''lastLogin'', ''lastLoginAt'', ''emailVerified'', ''emailVerificationToken'',
          ''emailVerificationExpiration'', ''forgotPasswordToken'', ''forgotPasswordExpiration''],
       meaningfulChangesOnly = Some True,
       maxDepth = Some 2 \<rparr>"

definition or_else :: "'a option \<Rightarrow> 'a option \<Rightarrow> 'a option" where
  "or_else given dflt = (case given of None \<Rightarrow> dflt | Some v \<Rightarrow> Some v)"

definition spread :: "ChangeFormatterOptions \<Rightarrow> ChangeFormatterOptions \<Rightarrow> ChangeFormatterOptions" where
  "spread defaults options =
     \<lparr> excludeFields = or_else (excludeFields options) (excludeFields defaults),
       meaningfulChangesOnly = or_else (meaningfulChangesOnly options) (meaningfulChangesOnly defaults),
       maxDepth = or_else (maxDepth options) (maxDepth defaults) \<rparr>"

text \<open>\<^verbatim>\<open>opts.excludeFields?.includes(key)\<close>, as a condition.\<close>

definition excluded :: "ChangeFormatterOptions \<Rightarrow> string \<Rightarrow> bool" where
  "excluded opts key = (case excludeFields opts of None \<Rightarrow> False | Some ex \<Rightarrow> key \<in> set ex)"

text \<open>\<^verbatim>\<open>opts.maxDepth || 5\<close>: 5 for a missing limit and for the limit 0.\<close>

definition maxDepth_or_5 :: "ChangeFormatterOptions \<Rightarrow> int" where
  "maxDepth_or_5 opts = (case maxDepth opts of None \<Rightarrow> 5 | Some n \<Rightarrow> if n = 0 then 5 else n)"

text \<open>\<^verbatim>\<open>opts.excludeFields || []\<close>.\<close>

definition excludeFields_or_empty :: "ChangeFormatterOptions \<Rightarrow> string list" where
  "excludeFields_or_empty opts = (case excludeFields opts of None \<Rightarrow> [] | Some ex \<Rightarrow> ex)"

datatype error = TypeError

text \<open>
  \<^verbatim>\<open>formatChanges(newDoc, oldDoc, options)\<close>. \<^verbatim>\<open>Object.keys\<close> throws when \<^verbatim>\<open>newDoc\<close> is
  \<^verbatim>\<open>null\<close> or \<^verbatim>\<open>undefined\<close> beside an \<^verbatim>\<open>oldDoc\<close> that is there.
\<close>

definition formatChanges :: "jv \<Rightarrow> jv \<Rightarrow> ChangeFormatterOptions \<Rightarrow> error + jv" where
  "formatChanges newDoc oldDoc options =
     (let opts = spread defaultChangeFormatterOptions options in
      if \<not> truthy oldDoc then Inr newDoc
      else
        case object_keys newDoc of
          None \<Rightarrow> Inl TypeError
        | Some newKeys \<Rightarrow>
        case object_keys oldDoc of
          None \<Rightarrow> Inl TypeError
        | Some oldKeys \<Rightarrow>
            let allKeys = new_Set (newKeys @ oldKeys);
                (changes, hasAnyChanges) =
                  fold (\<lambda>key (changes, hasAnyChanges).
                      if excluded opts key then (changes, hasAnyChanges)
                      else
                        let newValue = get_prop newDoc key;
                            oldValue = get_prop oldDoc key
                        in
                          if same_relationship newValue oldValue then (changes, hasAnyChanges)
                          else if meaningfulChangesOnly opts = Some True then
                            (let meaningfulChange =
                                   extractMeaningfulChanges newValue oldValue 0 (maxDepth_or_5 opts)
                                     (excludeFields_or_empty opts)
                             in if \<not> strict_eq meaningfulChange JNull
                                then (set_prop changes key (change_record oldValue meaningfulChange), True)
                                else (changes, hasAnyChanges))
                          else if \<not> deepEqual newValue oldValue 0 (maxDepth_or_5 opts)
                            then (set_prop changes key (change_record oldValue newValue), True)
                          else (changes, hasAnyChanges))
                    allKeys ([], False)
            in Inr (if hasAnyChanges then JObj fresh changes else JNull))"

text \<open>\<^verbatim>\<open>shouldLogChanges(changes, minChanges = 1)\<close>; \<open>None\<close> is the argument left out.\<close>

definition shouldLogChanges :: "jv \<Rightarrow> int option \<Rightarrow> bool" where
  "shouldLogChanges changes minChanges =
     (let minChanges' = (case minChanges of None \<Rightarrow> 1 | Some n \<Rightarrow> n) in
      if \<not> truthy changes then False
      else
        let changeCount = int (length (keys_of changes))
        in changeCount \<ge> minChanges')"

section \<open>The cascade tracker\<close>

text \<open>
  \<^verbatim>\<open>AuditContext\<close>, every property optional, and the manager's two maps. The manager is
  one global object; each operation takes its state and returns the new one. The clock
  (\<^verbatim>\<open>Date.now()\<close>) and the random suffix of a request id are arguments.
\<close>

record AuditContext =
  sourceCollection :: "string option"
  sourceDocumentId :: "string option"
  isDirectOperation :: "bool option"
  timestamp :: "int option"
  operationStack :: "string list option"

record AuditContextManager =
  contexts :: "string \<rightharpoonup> AuditContext"
  requestContexts :: "string \<rightharpoonup> string"

text \<open>The request object, of which only \<^verbatim>\<open>auditRequestId\<close> is read and written.\<close>

record AuditRequest =
  auditRequestId :: "string option"

text \<open>The options of \<^verbatim>\<open>shouldLogOperation\<close>.\<close>

record CascadeOptions =
  allowCascading :: "bool option"
  maxCascadeDepth :: "int option"

definition createContext ::
  "int \<Rightarrow> string \<Rightarrow> string option \<Rightarrow> string option \<Rightarrow> AuditContextManager
     \<Rightarrow> AuditContext \<times> AuditContextManager" where
  "createContext now requestId srcCollection srcDocumentId mgr =
     (let ctx = \<lparr> sourceCollection = srcCollection,
                   sourceDocumentId = srcDocumentId,
                   isDirectOperation = Some True,
                   timestamp = Some now,
                   operationStack = Some [] \<rparr>
      in (ctx, mgr\<lparr> contexts := (contexts mgr)(requestId \<mapsto> ctx) \<rparr>))"

definition getContext :: "string \<Rightarrow> AuditContextManager \<Rightarrow> AuditContext option" where
  "getContext requestId mgr = contexts mgr requestId"

definition markAsCascading :: "string \<Rightarrow> string \<Rightarrow> string \<Rightarrow> AuditContextManager \<Rightarrow> AuditContextManager" where
  "markAsCascading requestId collection documentId mgr =
     (case contexts mgr requestId of
        None \<Rightarrow> mgr
      | Some ctx \<Rightarrow>
          let stack = (case operationStack ctx of None \<Rightarrow> [] | Some st \<Rightarrow> st);
              ctx' = ctx\<lparr> isDirectOperation := Some False,
                         operationStack := Some (stack @ [collection @ '':'' @ documentId]) \<rparr>
          in mgr\<lparr> contexts := (contexts mgr)(requestId \<mapsto> ctx') \<rparr>)"

text \<open>\<^verbatim>\<open>options.maxCascadeDepth || 1\<close>: 1 for a missing depth and for the depth 0.\<close>

definition maxCascadeDepth_or_1 :: "CascadeOptions \<Rightarrow> int" where
  "maxCascadeDepth_or_1 options =
     (case maxCascadeDepth options of None \<Rightarrow> 1 | Some n \<Rightarrow> if n = 0 then 1 else n)"

definition shouldLogOperation ::
  "string \<Rightarrow> string \<Rightarrow> string \<Rightarrow> CascadeOptions \<Rightarrow> AuditContextManager \<Rightarrow> bool" where
  "shouldLogOperation requestId collection documentId options mgr =
     (case contexts mgr requestId of
        None \<Rightarrow> True
      | Some ctx \<Rightarrow>
          if sourceCollection ctx = Some collection \<and> sourceDocumentId ctx = Some documentId
            then True
          else if allowCascading options \<noteq> Some True then False
          else
            let maxDepth = maxCascadeDepth_or_1 options in
            if (case operationStack ctx of
                  None \<Rightarrow> False
                | Some stack \<Rightarrow> int (length stack) \<ge> maxDepth)
              then False
            else True)"

definition clearContext :: "string \<Rightarrow> AuditContextManager \<Rightarrow> AuditContextManager" where
  "clearContext requestId mgr =
     mgr\<lparr> contexts := (contexts mgr)(requestId := None),
          requestContexts := (requestContexts mgr)(requestId := None) \<rparr>"

text \<open>\<^verbatim>\<open>`req_${Date.now()}_${Math.random().toString(36).substr(2, 9)}`\<close>.\<close>

definition generateRequestId :: "int \<Rightarrow> string \<Rightarrow> string" where
  "generateRequestId now rnd = ''req_'' @ show_int now @ ''_'' @ rnd"

text \<open>\<^verbatim>\<open>initializeAuditContext(req)\<close> returns the request id, the request that now
  carries it, and the manager.\<close>

definition initializeAuditContext ::
  "int \<Rightarrow> string \<Rightarrow> AuditRequest \<Rightarrow> AuditContextManager
     \<Rightarrow> string \<times> AuditRequest \<times> AuditContextManager" where
  "initializeAuditContext now rnd req mgr =
     (let requestId = generateRequestId now rnd
      in (requestId, req\<lparr> auditRequestId := Some requestId \<rparr>, mgr))"

text \<open>The request id of a request, when it has one that is not the empty string
  (\<^verbatim>\<open>!requestId\<close> is true of \<^verbatim>\<open>undefined\<close> and of \<^verbatim>\<open>''\<close>).\<close>

definition request_id :: "AuditRequest \<Rightarrow> string option" where
  "request_id req =
     (case auditRequestId req of None \<Rightarrow> None | Some rid \<Rightarrow> if rid = [] then None else Some rid)"

definition cleanupAuditContext :: "AuditRequest \<Rightarrow> AuditContextManager \<Rightarrow> AuditContextManager" where
  "cleanupAuditContext req mgr =
     (case request_id req of None \<Rightarrow> mgr | Some requestId \<Rightarrow> clearContext requestId mgr)"

definition shouldLogAuditOperation ::
  "AuditRequest \<Rightarrow> string \<Rightarrow> string \<Rightarrow> CascadeOptions \<Rightarrow> AuditContextManager \<Rightarrow> bool" where
  "shouldLogAuditOperation req collection documentId options mgr =
     (case request_id req of
        None \<Rightarrow> True
      | Some requestId \<Rightarrow> shouldLogOperation requestId collection documentId options mgr)"

definition markDirectOperation ::
  "int \<Rightarrow> AuditRequest \<Rightarrow> string \<Rightarrow> string \<Rightarrow> AuditContextManager \<Rightarrow> AuditContextManager" where
  "markDirectOperation now req collection documentId mgr =
     (case request_id req of
        None \<Rightarrow> mgr
      | Some requestId \<Rightarrow>
          (case getContext requestId mgr of
             Some ctx \<Rightarrow>
               mgr\<lparr> contexts := (contexts mgr)(requestId \<mapsto>
                     ctx\<lparr> sourceCollection := Some collection,
                          sourceDocumentId := Some documentId,
                          isDirectOperation := Some True \<rparr>) \<rparr>
           | None \<Rightarrow> snd (createContext now requestId (Some collection) (Some documentId) mgr)))"

definition markCascadingOperation ::
  "AuditRequest \<Rightarrow> string \<Rightarrow> string \<Rightarrow> AuditContextManager \<Rightarrow> AuditContextManager" where
  "markCascadingOperation req collection documentId mgr =
     (case request_id req of
        None \<Rightarrow> mgr
      | Some requestId \<Rightarrow> markAsCascading requestId collection documentId mgr)"

text \<open>\<^verbatim>\<open>export const auditContextManager = new AuditContextManager()\<close>: both maps empty.\<close>

definition auditContextManager :: AuditContextManager where
  "auditContextManager = \<lparr> contexts = Map.empty, requestContexts = Map.empty \<rparr>"

section \<open>Notions used in the statements\<close>


text \<open>
  A value without the identities of its cells: every reference is set to 0. Two values
  are copies of one another when they agree up to references.
\<close>

fun forget_refs :: "jv \<Rightarrow> jv" where
  "forget_refs (JArr r xs) = JArr 0 (map forget_refs xs)"
| "forget_refs (JObj r kvs) = JObj 0 (map (\<lambda>(k, v). (k, forget_refs v)) kvs)"
| "forget_refs v = v"

text \<open>A plain object: not \<^verbatim>\<open>null\<close>, not an array.\<close>

definition is_keyed_map :: "jv \<Rightarrow> bool" where
  "is_keyed_map v = (typeof v = TObject \<and> \<not> is_nullish v \<and> \<not> is_array v)"

text \<open>A value that holds no \<^verbatim>\<open>NaN\<close>, at any depth.\<close>

fun nan_free :: "jv \<Rightarrow> bool" where
  "nan_free JNaN = False"
| "nan_free (JArr r xs) = list_all nan_free xs"
| "nan_free (JObj r kvs) = list_all (\<lambda>(k, v). nan_free v) kvs"
| "nan_free v = True"

text \<open>An array or an object: a value with an identity of its own.\<close>

fun is_cell :: "jv \<Rightarrow> bool" where
  "is_cell (JArr r xs) = True"
| "is_cell (JObj r kvs) = True"
| "is_cell v = False"

text \<open>
  Two values between which nothing has changed: they are equal but for the identities of
  their arrays and objects (the same value read twice, or a value and a copy of it), and
  hold no \<^verbatim>\<open>NaN\<close>.
\<close>

definition unchanged :: "jv \<Rightarrow> jv \<Rightarrow> bool" where
  "unchanged a b = (forget_refs a = forget_refs b \<and> nan_free a)"

text \<open>
  \<open>differ_only_below n a b\<close>: whatever differs between \<open>a\<close> and \<open>b\<close> lies more than \<open>n\<close>
  levels of keyed maps beneath them. With no level left (\<open>n = 0\<close>) the two values are
  arbitrary. With a level left they are unchanged, or both are keyed maps, and for each
  key of either the two fields are unchanged, with an identifier that is not itself an
  array or an object, or they are not reference-shaped and differ only below the
  remaining levels.
\<close>

fun differ_only_below :: "nat \<Rightarrow> jv \<Rightarrow> jv \<Rightarrow> bool" where
  "differ_only_below 0 a b = True"
| "differ_only_below (Suc n) a b =
     (unchanged a b \<or>
      (is_keyed_map a \<and> is_keyed_map b \<and>
       list_all (\<lambda>key.
           (unchanged (get_prop a key) (get_prop b key) \<and> \<not> is_cell (id_of (get_prop a key)))
           \<or> (\<not> isRelationshipField key (get_prop a key)
               \<and> \<not> isRelationshipField key (get_prop b key)
               \<and> differ_only_below n (get_prop a key) (get_prop b key)))
         (keys_of a @ keys_of b)))"

text \<open>
  What one pass of the loop of \<^verbatim>\<open>extractMeaningfulChanges\<close> assigns to
  \<^verbatim>\<open>result[key]\<close>, if anything; the same for the loop of \<^verbatim>\<open>formatChanges\<close> and
  \<^verbatim>\<open>changes[key]\<close>; and a loop that makes these assignments key by key.
\<close>

definition extract_key :: "jv \<Rightarrow> jv \<Rightarrow> int \<Rightarrow> int \<Rightarrow> string list \<Rightarrow> string \<Rightarrow> jv option" where
  "extract_key newValue oldValue depth max_depth excluded_fields key =
     (if key \<in> set excluded_fields then None
      else
        let newVal = get_prop newValue key;
            oldVal = get_prop oldValue key
        in
          if same_relationship newVal oldVal then None
          else if isRelationshipField key newVal \<or> isRelationshipField key oldVal then
            (let newId = id_of newVal; oldId = id_of oldVal in
             if truthy newId \<and> truthy oldId \<and> \<not> strict_eq newId oldId
             then Some (change_record oldId newId)
             else None)
          else
            (let change = extractMeaningfulChanges newVal oldVal (depth + 1) max_depth excluded_fields
             in if \<not> strict_eq change JNull then Some change else None))"

definition format_key :: "ChangeFormatterOptions \<Rightarrow> jv \<Rightarrow> jv \<Rightarrow> string \<Rightarrow> jv option" where
  "format_key opts newDoc oldDoc key =
     (if excluded opts key then None
      else
        let newValue = get_prop newDoc key;
            oldValue = get_prop oldDoc key
        in
          if same_relationship newValue oldValue then None
          else if meaningfulChangesOnly opts = Some True then
            (let meaningfulChange =
                   extractMeaningfulChanges newValue oldValue 0 (maxDepth_or_5 opts)
                     (excludeFields_or_empty opts)
             in if \<not> strict_eq meaningfulChange JNull
                then Some (change_record oldValue meaningfulChange)
                else None)
          else if \<not> deepEqual newValue oldValue 0 (maxDepth_or_5 opts)
            then Some (change_record oldValue newValue)
          else None)"

definition assign_all ::
  "(string \<Rightarrow> jv option) \<Rightarrow> string list \<Rightarrow> (string \<times> jv) list \<times> bool
     \<Rightarrow> (string \<times> jv) list \<times> bool" where
  "assign_all f ks init =
     fold (\<lambda>key (result, hasChanges).
         case f key of None \<Rightarrow> (result, hasChanges)
                     | Some v \<Rightarrow> (set_prop result key v, True))
       ks init"

section \<open>Basic facts\<close>

lemma strict_eq_refl: "v \<noteq> JNaN \<Longrightarrow> strict_eq v v"
  by (cases v) auto

lemma deepEqual_refl: "v \<noteq> JNaN \<Longrightarrow> deepEqual v v d m"
  by (subst deepEqual.simps) (simp add: strict_eq_refl)

lemma same_relationship_same: "\<not> same_relationship v v"
  by (cases v) (auto simp: same_relationship_def)

lemma extract_equal: "deepEqual nv ov d m \<Longrightarrow> extractMeaningfulChanges nv ov d m ex = JNull"
  by (subst extractMeaningfulChanges.simps) simp

lemma extract_same: "v \<noteq> JNaN \<Longrightarrow> extractMeaningfulChanges v v d m ex = JNull"
  by (simp add: extract_equal deepEqual_refl)

lemma extract_beyond: "d > m \<Longrightarrow> extractMeaningfulChanges nv ov d m ex = JNull"
  by (subst extractMeaningfulChanges.simps) simp

subsection \<open>The set of keys\<close>

lemma fold_insert_set:
  "set (fold (\<lambda>x acc. if x \<in> set acc then acc else acc @ [x]) xs acc) = set acc \<union> set xs"
  by (induction xs arbitrary: acc) auto


lemma set_new_Set: "set (new_Set xs) = set xs"
  by (simp add: new_Set_def fold_insert_set)


subsection \<open>The assignments of a loop\<close>

lemma assign_all_Nil: "assign_all f [] init = init"
  by (simp add: assign_all_def)

lemma assign_all_Cons:
  "assign_all f (k # ks) (c, h) =
     assign_all f ks (case f k of None \<Rightarrow> (c, h) | Some v \<Rightarrow> (set_prop c k v, True))"
  by (simp add: assign_all_def)

lemma assign_all_none:
  "\<forall>k\<in>set ks. f k = None \<Longrightarrow> assign_all f ks init = init"
  by (induction ks arbitrary: init) (auto simp: assign_all_Nil assign_all_Cons split: prod.splits)

lemma keys_set_prop: "fst ` set (set_prop c k v) = insert k (fst ` set c)"
  by (simp add: set_prop_def dom_update)


lemma assign_all_keys:
  "fst ` set (fst (assign_all f ks (c, h))) = fst ` set c \<union> {k \<in> set ks. f k \<noteq> None}"
  by (induction ks arbitrary: c h)
     (auto simp: assign_all_Nil assign_all_Cons keys_set_prop split: option.splits)



subsection \<open>The two loops, key by key\<close>

lemma extract_loop:
  "fold (\<lambda>key (result, hasChanges).
      if key \<in> set ex then (result, hasChanges)
      else
        let newVal = get_prop nv key;
            oldVal = get_prop ov key
        in
          if same_relationship newVal oldVal then (result, hasChanges)
          else if isRelationshipField key newVal \<or> isRelationshipField key oldVal then
            (let newId = id_of newVal; oldId = id_of oldVal in
             if truthy newId \<and> truthy oldId \<and> \<not> strict_eq newId oldId
             then (set_prop result key (change_record oldId newId), True)
             else (result, hasChanges))
          else
            (let change = extractMeaningfulChanges newVal oldVal (d + 1) m ex
             in if \<not> strict_eq change JNull
                then (set_prop result key change, True)
                else (result, hasChanges)))
    ks init = assign_all (extract_key nv ov d m ex) ks init"
  unfolding assign_all_def
  by (rule arg_cong [where f = "\<lambda>g. fold g ks init"])
     (auto simp: fun_eq_iff extract_key_def Let_def)

lemma extract_keyed:
  assumes "\<not> d > m" "\<not> deepEqual nv ov d m" "is_keyed_map nv" "is_keyed_map ov"
  shows "extractMeaningfulChanges nv ov d m ex =
     (let r = assign_all (extract_key nv ov d m ex) (new_Set (keys_of nv @ keys_of ov)) ([], False)
      in if snd r then JObj fresh (fst r) else JNull)"
  using assms
  by (subst extractMeaningfulChanges.simps)
     (simp add: is_keyed_map_def extract_loop Let_def split: prod.splits)

lemma format_loop:
  "fold (\<lambda>key (changes, hasAnyChanges).
      if excluded opts key then (changes, hasAnyChanges)
      else
        let newValue = get_prop newDoc key;
            oldValue = get_prop oldDoc key
        in
          if same_relationship newValue oldValue then (changes, hasAnyChanges)
          else if meaningfulChangesOnly opts = Some True then
            (let meaningfulChange =
                   extractMeaningfulChanges newValue oldValue 0 (maxDepth_or_5 opts)
                     (excludeFields_or_empty opts)
             in if \<not> strict_eq meaningfulChange JNull
                then (set_prop changes key (change_record oldValue meaningfulChange), True)
                else (changes, hasAnyChanges))
          else if \<not> deepEqual newValue oldValue 0 (maxDepth_or_5 opts)
            then (set_prop changes key (change_record oldValue newValue), True)
          else (changes, hasAnyChanges))
    ks init = assign_all (format_key opts newDoc oldDoc) ks init"
  unfolding assign_all_def
  by (rule arg_cong [where f = "\<lambda>g. fold g ks init"])
     (auto simp: fun_eq_iff format_key_def Let_def)

lemma formatChanges_docs:
  "formatChanges (JObj rn nkvs) (JObj ro okvs) cfg =
     (let r = assign_all
                (format_key (spread defaultChangeFormatterOptions cfg) (JObj rn nkvs) (JObj ro okvs))
                (new_Set (map fst nkvs @ map fst okvs)) ([], False)
      in Inr (if snd r then JObj fresh (fst r) else JNull))"
  by (simp add: formatChanges_def format_loop Let_def split: prod.splits)

lemma keys_of_result:
  "set (keys_of (if snd r then JObj fresh (fst r) else JNull)) \<subseteq> fst ` set (fst r)"
  by (auto simp: keys_of_def)

lemma formatChanges_key_absent:
  assumes "format_key (spread defaultChangeFormatterOptions cfg) (JObj rn nkvs) (JObj ro okvs) k = None"
  shows "\<exists>res. formatChanges (JObj rn nkvs) (JObj ro okvs) cfg = Inr res \<and> k \<notin> set (keys_of res)"
proof -
  let ?f = "format_key (spread defaultChangeFormatterOptions cfg) (JObj rn nkvs) (JObj ro okvs)"
  let ?r = "assign_all ?f (new_Set (map fst nkvs @ map fst okvs)) ([], False)"
  have "k \<notin> fst ` set (fst ?r)"
    using assms assign_all_keys [of ?f "new_Set (map fst nkvs @ map fst okvs)" "[]" False]
    by auto
  then have "k \<notin> set (keys_of (if snd ?r then JObj fresh (fst ?r) else JNull))"
    using keys_of_result [of ?r] by blast
  then show ?thesis
    by (simp add: formatChanges_docs Let_def)
qed

lemma formatChanges_single_none:
  assumes "format_key (spread defaultChangeFormatterOptions cfg) (JObj r1 [(f, a)]) (JObj r2 [(f, b)]) f = None"
  shows "formatChanges (JObj r1 [(f, a)]) (JObj r2 [(f, b)]) cfg = Inr JNull"
proof -
  have "\<forall>k\<in>set (new_Set (map fst [(f, a)] @ map fst [(f, b)])).
          format_key (spread defaultChangeFormatterOptions cfg) (JObj r1 [(f, a)]) (JObj r2 [(f, b)]) k = None"
    using assms by (simp add: set_new_Set)
  then show ?thesis
    by (simp only: formatChanges_docs Let_def assign_all_none) simp
qed

lemma meaningful_default:
  "meaningfulChangesOnly cfg \<noteq> Some False \<Longrightarrow>
   meaningfulChangesOnly (spread defaultChangeFormatterOptions cfg) = Some True"
  by (cases "meaningfulChangesOnly cfg")
     (auto simp: spread_def or_else_def defaultChangeFormatterOptions_def)

lemma format_key_meaningful_none:
  assumes "meaningfulChangesOnly cfg \<noteq> Some False"
      and "extractMeaningfulChanges (get_prop nd k) (get_prop od k) 0
             (maxDepth_or_5 (spread defaultChangeFormatterOptions cfg))
             (excludeFields_or_empty (spread defaultChangeFormatterOptions cfg)) = JNull"
  shows "format_key (spread defaultChangeFormatterOptions cfg) nd od k = None"
  using assms(2) meaningful_default [OF assms(1)]
  by (simp add: format_key_def Let_def)

lemma extract_key_absent:
  assumes "extract_key (JObj rn nkvs) (JObj ro okvs) d m ex k = None"
  shows "k \<notin> set (keys_of (extractMeaningfulChanges (JObj rn nkvs) (JObj ro okvs) d m ex))"
proof (cases "d > m \<or> deepEqual (JObj rn nkvs) (JObj ro okvs) d m")
  case True
  then have "extractMeaningfulChanges (JObj rn nkvs) (JObj ro okvs) d m ex = JNull"
    by (subst extractMeaningfulChanges.simps) auto
  then show ?thesis by (simp add: keys_of_def)
next
  case False
  let ?f = "extract_key (JObj rn nkvs) (JObj ro okvs) d m ex"
  let ?r = "assign_all ?f (new_Set (keys_of (JObj rn nkvs) @ keys_of (JObj ro okvs))) ([], False)"
  have keyed: "is_keyed_map (JObj rn nkvs)" "is_keyed_map (JObj ro okvs)"
    by (simp_all add: is_keyed_map_def)
  from False have "\<not> d > m" and "\<not> deepEqual (JObj rn nkvs) (JObj ro okvs) d m" by auto
  from extract_keyed [OF this keyed, of ex]
  have res: "extractMeaningfulChanges (JObj rn nkvs) (JObj ro okvs) d m ex
      = (if snd ?r then JObj fresh (fst ?r) else JNull)"
    by (simp add: Let_def)
  have "k \<notin> fst ` set (fst ?r)"
    using assms
      assign_all_keys [of ?f "new_Set (keys_of (JObj rn nkvs) @ keys_of (JObj ro okvs))" "[]" False]
    by auto
  then show ?thesis
    using keys_of_result [of ?r] unfolding res by blast
qed

section \<open>Values between which nothing has changed\<close>

lemma stringify_forget: "stringify (forget_refs v) = stringify v"
proof (induction v)
  case (JArr r xs)
  have "map (\<lambda>x. case stringify x of None \<Rightarrow> ''null'' | Some t \<Rightarrow> t) (map forget_refs xs)
      = map (\<lambda>x. case stringify x of None \<Rightarrow> ''null'' | Some t \<Rightarrow> t) xs"
    unfolding map_map by (rule map_cong [OF refl]) (simp add: JArr.IH)
  then show ?case by (simp del: map_map)
next
  case (JObj r kvs)
  have "map (\<lambda>(k, v). case stringify v of None \<Rightarrow> [] | Some t \<Rightarrow> [quote k @ '':'' @ t])
         (map (\<lambda>(k, v). (k, forget_refs v)) kvs)
      = map (\<lambda>(k, v). case stringify v of None \<Rightarrow> [] | Some t \<Rightarrow> [quote k @ '':'' @ t]) kvs"
    unfolding map_map
  proof (rule map_cong [OF refl])
    fix p assume mem: "p \<in> set kvs"
    obtain k v where p: "p = (k, v)" by (cases p)
    from JObj.IH [OF mem, of v] p have "stringify (forget_refs v) = stringify v" by simp
    then show "((\<lambda>(k, v). case stringify v of None \<Rightarrow> [] | Some t \<Rightarrow> [quote k @ '':'' @ t])
          \<circ> (\<lambda>(k, v). (k, forget_refs v))) p
        = (case p of (k, v) \<Rightarrow> case stringify v of None \<Rightarrow> [] | Some t \<Rightarrow> [quote k @ '':'' @ t])"
      by (simp add: p)
  qed
  then show ?case by (simp del: map_map)
qed simp_all

lemma stringify_copies: "forget_refs a = forget_refs b \<Longrightarrow> stringify a = stringify b"
  by (metis stringify_forget)

lemma deepEqual_beyond: "d > m \<Longrightarrow> deepEqual a b d m = (stringify a = stringify b)"
  by (subst deepEqual.simps) simp

lemma forget_typeof: "forget_refs a = forget_refs b \<Longrightarrow> typeof a = typeof b"
  by (cases a; cases b) auto

lemma map_of_forget:
  "map_of (map (\<lambda>(k, v). (k, forget_refs v)) kvs) k = map_option forget_refs (map_of kvs k)"
  by (induction kvs) auto

lemma forget_get_prop:
  assumes "forget_refs (JObj r kvs) = forget_refs (JObj r' kvs')"
  shows "forget_refs (get_prop (JObj r kvs) k) = forget_refs (get_prop (JObj r' kvs') k)"
proof -
  from assms have "map_of (map (\<lambda>(k, v). (k, forget_refs v)) kvs) k
      = map_of (map (\<lambda>(k, v). (k, forget_refs v)) kvs') k" by simp
  then have "map_option forget_refs (map_of kvs k) = map_option forget_refs (map_of kvs' k)"
    by (simp only: map_of_forget)
  then show ?thesis
    by (cases "map_of kvs k"; cases "map_of kvs' k") auto
qed

lemma forget_keys:
  assumes "forget_refs (JObj r kvs) = forget_refs (JObj r' kvs')"
  shows "map fst kvs = map fst kvs'"
proof -
  from assms have "map fst (map (\<lambda>(k, v). (k, forget_refs v)) kvs)
      = map fst (map (\<lambda>(k, v). (k, forget_refs v)) kvs')" by simp
  then show ?thesis by (simp add: case_prod_beta comp_def)
qed

lemma nan_free_forget: "nan_free (forget_refs v) = nan_free v"
proof (induction v)
  case (JArr r xs)
  then show ?case by (simp add: list_all_iff)
next
  case (JObj r kvs)
  have "list_all (\<lambda>(k, v). nan_free v) (map (\<lambda>(k, v). (k, forget_refs v)) kvs)
      = list_all (\<lambda>(k, v). nan_free v) kvs"
    unfolding list_all_iff
  proof (intro iffI ballI)
    fix p assume all: "\<forall>x\<in>set (map (\<lambda>(k, v). (k, forget_refs v)) kvs). case x of (k, v) \<Rightarrow> nan_free v"
      and mem: "p \<in> set kvs"
    obtain k v where p: "p = (k, v)" by (cases p)
    from all mem p have "nan_free (forget_refs v)" by force
    with JObj.IH [OF mem, of v] p show "case p of (k, v) \<Rightarrow> nan_free v" by simp
  next
    fix q assume all: "\<forall>x\<in>set kvs. case x of (k, v) \<Rightarrow> nan_free v"
      and mem: "q \<in> set (map (\<lambda>(k, v). (k, forget_refs v)) kvs)"
    then obtain k v where kv: "(k, v) \<in> set kvs" and q: "q = (k, forget_refs v)" by auto
    from all kv have "nan_free v" by auto
    with JObj.IH [OF kv, of v] q show "case q of (k, v) \<Rightarrow> nan_free v" by simp
  qed
  then show ?case by simp
qed simp_all

lemma nan_free_get_prop: "nan_free (JObj r kvs) \<Longrightarrow> nan_free (get_prop (JObj r kvs) k)"
  by (auto simp: inherited_def list_all_iff split: option.splits dest: map_of_SomeD)

lemma unchanged_sym: "unchanged a b \<Longrightarrow> unchanged b a"
  by (metis nan_free_forget unchanged_def)

lemma unchanged_get_prop:
  "unchanged (JObj r kvs) (JObj r' kvs') \<Longrightarrow>
   unchanged (get_prop (JObj r kvs) k) (get_prop (JObj r' kvs') k)"
  unfolding unchanged_def by (intro conjI forget_get_prop nan_free_get_prop) simp_all

text \<open>The deep comparison finds two such values equal, at any depth and for any limit.\<close>

lemma deepEqual_copies:
  "forget_refs a = forget_refs b \<Longrightarrow> nan_free a \<Longrightarrow> deepEqual a b d m"
proof (induction a arbitrary: b d)
  case (JArr r xs)
  then obtain r' ys where b: "b = JArr r' ys" and eq: "map forget_refs xs = map forget_refs ys"
    by (cases b) auto
  from eq have len: "length xs = length ys" by (rule map_eq_imp_length_eq)
  have "deepEqual x y (d + 1) m" if "(x, y) \<in> set (zip xs ys)" for x y
  proof -
    from that obtain i where "i < length xs" "x = xs ! i" "y = ys ! i"
      by (auto simp: set_zip)
    with eq len have same: "forget_refs x = forget_refs y"
      by (metis nth_map)
    from that have mem: "x \<in> set xs" by (rule set_zip_leftD)
    with JArr.prems(2) have "nan_free x" by (simp add: list_all_iff)
    with mem same show ?thesis by (intro JArr.IH)
  qed
  then have all: "list_all (\<lambda>(x, y). deepEqual x y (d + 1) m) (zip xs ys)"
    by (auto simp: list_all_iff)
  show ?case
  proof (cases "d > m")
    case True
    then show ?thesis
      using stringify_copies [OF JArr.prems(1)] by (simp only: deepEqual_beyond)
  next
    case False
    then show ?thesis
      using all len b by (subst deepEqual.simps) simp
  qed
next
  case (JObj r kvs)
  then obtain r' kvs' where b: "b = JObj r' kvs'" by (cases b) auto
  from JObj.prems b have ks: "map fst kvs = map fst kvs'" by (intro forget_keys) simp
  have each: "deepEqual (get_prop (JObj r kvs) k) (get_prop (JObj r' kvs') k) (d + 1) m"
    if "k \<in> set (map fst kvs)" for k
  proof -
    from that obtain v where v: "map_of kvs k = Some v"
      by (metis map_of_eq_None_iff not_Some_eq set_map)
    then have mem: "(k, v) \<in> set kvs" by (rule map_of_SomeD)
    with JObj.prems(2) have free: "nan_free v" by (auto simp: list_all_iff)
    have "forget_refs (get_prop (JObj r kvs) k) = forget_refs (get_prop (JObj r' kvs') k)"
      using JObj.prems b by (intro forget_get_prop) simp
    with v have "forget_refs v = forget_refs (get_prop (JObj r' kvs') k)" by simp
    from JObj.IH [OF mem _ this free, of "d + 1"] v show ?thesis by simp
  qed
  show ?case
  proof (cases "d > m")
    case True
    then show ?thesis
      using stringify_copies [OF JObj.prems(1)] by (simp only: deepEqual_beyond)
  next
    case False
    then show ?thesis
      using each ks b
      by (subst deepEqual.simps) (auto simp: keys_of_def Let_def list_all_iff)
  qed
next
  case JUndefined
  then show ?case by (cases b) (auto simp: deepEqual_refl)
next
  case JNull
  then show ?case by (cases b) (auto simp: deepEqual_refl)
next
  case (JBool x)
  then show ?case by (cases b) (auto simp: deepEqual_refl)
next
  case (JNum x)
  then show ?case by (cases b) (auto simp: deepEqual_refl)
next
  case JNaN
  then show ?case by simp
next
  case (JStr x)
  then show ?case by (cases b) (auto simp: deepEqual_refl)
next
  case (JFunction x)
  then show ?case by (cases b) (auto simp: deepEqual_refl)
next
  case JObjectPrototype
  then show ?case by (cases b) (auto simp: deepEqual_refl)
qed

lemma unchanged_extract: "unchanged a b \<Longrightarrow> extractMeaningfulChanges a b d m ex = JNull"
  by (simp add: unchanged_def extract_equal deepEqual_copies)

lemma same_relationship_copies:
  "forget_refs a = forget_refs b \<Longrightarrow> \<not> same_relationship a b"
  by (auto simp: same_relationship_def dest: forget_typeof)

lemma format_key_unchanged:
  assumes "unchanged (get_prop nd k) (get_prop od k)"
  shows "format_key opts nd od k = None"
  using assms same_relationship_copies [of "get_prop nd k" "get_prop od k"]
    deepEqual_copies [of "get_prop nd k" "get_prop od k"]
  by (simp add: unchanged_def format_key_def Let_def extract_equal)

section \<open>A document against itself\<close>

text \<open>
  On a document that holds no \<^verbatim>\<open>NaN\<close>, formatted against itself or against a copy of
  itself, \<^verbatim>\<open>formatChanges\<close> finds nothing to record.
\<close>

lemma formatChanges_unchanged_document:
  assumes "unchanged (JObj r kvs) (JObj r' kvs')"
  shows "formatChanges (JObj r kvs) (JObj r' kvs') cfg = Inr JNull"
    and "formatChanges (JObj r' kvs') (JObj r kvs) cfg = Inr JNull"
proof -
  have "format_key opts (JObj r kvs) (JObj r' kvs') k = None"
    and "format_key opts (JObj r' kvs') (JObj r kvs) k = None" for opts k
    using unchanged_get_prop [OF assms, of k] unchanged_get_prop [OF unchanged_sym [OF assms], of k]
    by (simp_all add: format_key_unchanged)
  then show "formatChanges (JObj r kvs) (JObj r' kvs') cfg = Inr JNull"
    and "formatChanges (JObj r' kvs') (JObj r kvs) cfg = Inr JNull"
    by (simp_all add: formatChanges_docs Let_def assign_all_none)
qed

text \<open>
  Claim C6 has \<^verbatim>\<open>formatChanges(X, X, cfg)\<close> return \<^verbatim>\<open>null\<close> for every document \<open>X\<close>. The
  code does not, for a document with a field that holds \<^verbatim>\<open>NaN\<close>: \<^verbatim>\<open>NaN === NaN\<close> is
  false, \<^verbatim>\<open>deepEqual\<close> has no case for it and answers false within the depth limit, and
  the field is recorded as changed from \<^verbatim>\<open>NaN\<close> to \<^verbatim>\<open>NaN\<close>. Past the depth limit the same
  function compares serialisations and finds \<^verbatim>\<open>NaN\<close> equal to itself.
\<close>

theorem same_document_with_NaN_is_reported:
  "formatChanges (JObj 1 [(''score'', JNaN)]) (JObj 1 [(''score'', JNaN)])
     \<lparr> excludeFields = None, meaningfulChangesOnly = None, maxDepth = None \<rparr>
     = Inr (JObj fresh [(''score'', change_record JNaN JNaN)])
   \<and> deepEqual JNaN JNaN 0 2 = False
   \<and> deepEqual JNaN JNaN 3 2 = True"
  by code_simp

section \<open>The logging threshold\<close>

text \<open>
  Claim C9. For a change-set (\<^verbatim>\<open>null\<close> or a keyed map) and every \<^verbatim>\<open>minChanges\<close>,
  \<^verbatim>\<open>shouldLogChanges\<close> is true exactly when the change-set is not \<^verbatim>\<open>null\<close> and has at
  least \<^verbatim>\<open>minChanges\<close> top-level fields; with the default \<^verbatim>\<open>minChanges = 1\<close> it is false
  exactly when the change-set is \<^verbatim>\<open>null\<close> or has no field.
\<close>

theorem shouldLogChanges_iff:
  assumes "changes = JNull \<or> (\<exists>r kvs. changes = JObj r kvs)"
  shows "shouldLogChanges changes minChanges =
           (changes \<noteq> JNull \<and>
            int (length (keys_of changes)) \<ge> (case minChanges of None \<Rightarrow> 1 | Some n \<Rightarrow> n))
         \<and> (\<not> shouldLogChanges changes None) = (changes = JNull \<or> keys_of changes = [])"
  using assms by (auto simp: shouldLogChanges_def keys_of_def Let_def Suc_le_eq)

text \<open>A change-set of one field passes the default threshold and fails the threshold 2.\<close>

theorem shouldLogChanges_iff_witness:
  "(\<exists>r kvs. JObj 0 [(''name'', change_record (JStr ''John'') (JStr ''Jane''))] = JObj r kvs)
   \<and> shouldLogChanges (JObj 0 [(''name'', change_record (JStr ''John'') (JStr ''Jane''))]) (Some 2) = False
   \<and> shouldLogChanges (JObj 0 [(''name'', change_record (JStr ''John'') (JStr ''Jane''))]) None = True"
proof -
  let ?cs = "JObj 0 [(''name'', change_record (JStr ''John'') (JStr ''Jane''))]"
  have h: "?cs = JNull \<or> (\<exists>r kvs. ?cs = JObj r kvs)" by simp
  from shouldLogChanges_iff [OF h, of "Some 2"] shouldLogChanges_iff [OF h, of None]
  show ?thesis by (simp add: keys_of_def)
qed

section \<open>Excluded fields\<close>

text \<open>
  Claim C7. For every pair of documents and every configuration, a field name in the list
  of excluded fields (the \<^verbatim>\<open>excludeFields\<close> of the configuration, the default list when it
  gives none) is not a field of the change-set \<^verbatim>\<open>formatChanges\<close> returns, whatever the
  field's two values are. Nor is a name of the list the differ is given a field of what
  the differ returns for two keyed maps, at any depth.
\<close>

theorem excluded_fields_absent:
  assumes "excludeFields (spread defaultChangeFormatterOptions cfg) = Some ex" and "k \<in> set ex"
  shows "(\<exists>res. formatChanges (JObj rn nkvs) (JObj ro okvs) cfg = Inr res \<and> k \<notin> set (keys_of res))
       \<and> k \<notin> set (keys_of (extractMeaningfulChanges (JObj rn nkvs) (JObj ro okvs) depth max_depth ex))"
proof
  have "excluded (spread defaultChangeFormatterOptions cfg) k"
    using assms by (simp add: excluded_def)
  then have "format_key (spread defaultChangeFormatterOptions cfg) (JObj rn nkvs) (JObj ro okvs) k = None"
    by (simp add: format_key_def)
  then show "\<exists>res. formatChanges (JObj rn nkvs) (JObj ro okvs) cfg = Inr res \<and> k \<notin> set (keys_of res)"
    by (rule formatChanges_key_absent)
next
  have "extract_key (JObj rn nkvs) (JObj ro okvs) depth max_depth ex k = None"
    using assms(2) by (simp add: extract_key_def)
  then show "k \<notin> set (keys_of (extractMeaningfulChanges (JObj rn nkvs) (JObj ro okvs) depth max_depth ex))"
    by (rule extract_key_absent)
qed

text \<open>A name and a hash both change, and the configuration excludes the hash: the
  change-set is \<^verbatim>\<open>{name: {old: "John", new: "Jane"}}\<close>.\<close>

theorem excluded_fields_absent_witness:
  "excludeFields (spread defaultChangeFormatterOptions
      \<lparr> excludeFields = Some [''hash''], meaningfulChangesOnly = None, maxDepth = None \<rparr>)
     = Some [''hash'']
   \<and> ''hash'' \<in> set [''hash'']
   \<and> formatChanges
        (JObj 1 [(''name'', JStr ''Jane''), (''hash'', JStr ''h2'')])
        (JObj 2 [(''name'', JStr ''John''), (''hash'', JStr ''h1'')])
        \<lparr> excludeFields = Some [''hash''], meaningfulChangesOnly = None, maxDepth = None \<rparr>
       = Inr (JObj fresh [(''name'', change_record (JStr ''John'') (JStr ''Jane''))])
   \<and> (\<exists>res. formatChanges
          (JObj 1 [(''name'', JStr ''Jane''), (''hash'', JStr ''h2'')])
          (JObj 2 [(''name'', JStr ''John''), (''hash'', JStr ''h1'')])
          \<lparr> excludeFields = Some [''hash''], meaningfulChangesOnly = None, maxDepth = None \<rparr> = Inr res
        \<and> ''hash'' \<notin> set (keys_of res))
   \<and> ''hash'' \<notin> set (keys_of (extractMeaningfulChanges
          (JObj 1 [(''name'', JStr ''Jane''), (''hash'', JStr ''h2'')])
          (JObj 2 [(''name'', JStr ''John''), (''hash'', JStr ''h1'')]) 1 2 [''hash'']))"
proof -
  let ?cfg = "\<lparr> excludeFields = Some [''hash''], meaningfulChangesOnly = None, maxDepth = None \<rparr>"
  have h1: "excludeFields (spread defaultChangeFormatterOptions ?cfg) = Some [''hash'']"
    by (simp add: spread_def or_else_def)
  have h2: "''hash'' \<in> set [''hash'']" by simp
  have v: "formatChanges
        (JObj 1 [(''name'', JStr ''Jane''), (''hash'', JStr ''h2'')])
        (JObj 2 [(''name'', JStr ''John''), (''hash'', JStr ''h1'')]) ?cfg
       = Inr (JObj fresh [(''name'', change_record (JStr ''John'') (JStr ''Jane''))])"
    by code_simp
  from excluded_fields_absent [OF h1 h2, where depth = 1 and max_depth = 2] h1 h2 v
  show ?thesis by blast
qed

section \<open>A relationship and its populated form\<close>

lemma same_relationship_populated:
  assumes "(oldValue = JStr i \<and> newValue = JObj r kvs \<and> get_prop (JObj r kvs) ''id'' = JStr i)
         \<or> (newValue = JStr i \<and> oldValue = JObj r kvs \<and> get_prop (JObj r kvs) ''id'' = JStr i)"
  shows "same_relationship newValue oldValue"
  using assms by (auto simp: same_relationship_def)

text \<open>
  Claim C5. For every pair of documents and every configuration, a field whose old value
  is a string \<open>i\<close> and whose new value is a keyed map with \<^verbatim>\<open>id\<close> equal to \<open>i\<close>, or the
  reverse, is not a field of the change-set \<^verbatim>\<open>formatChanges\<close> returns; nor is it a field
  of what the differ returns for the two keyed maps, at any depth. And with
  \<^verbatim>\<open>{author: "u1"}\<close> before and \<^verbatim>\<open>{author: {id: "u1", name: "X"}}\<close> after,
  \<^verbatim>\<open>formatChanges\<close> returns \<^verbatim>\<open>null\<close>.
\<close>

theorem relationship_collapse:
  assumes "(get_prop (JObj ro okvs) k = JStr i \<and> get_prop (JObj rn nkvs) k = JObj r kvs
              \<and> get_prop (JObj r kvs) ''id'' = JStr i)
         \<or> (get_prop (JObj rn nkvs) k = JStr i \<and> get_prop (JObj ro okvs) k = JObj r kvs
              \<and> get_prop (JObj r kvs) ''id'' = JStr i)"
  shows "(\<exists>res. formatChanges (JObj rn nkvs) (JObj ro okvs) cfg = Inr res \<and> k \<notin> set (keys_of res))
       \<and> k \<notin> set (keys_of (extractMeaningfulChanges (JObj rn nkvs) (JObj ro okvs) depth max_depth ex))
       \<and> formatChanges
            (JObj r1 [(''author'', JObj r2 [(''id'', JStr ''u1''), (''name'', JStr ''X'')])])
            (JObj r3 [(''author'', JStr ''u1'')]) cfg = Inr JNull"
proof (intro conjI)
  have same: "same_relationship (get_prop (JObj rn nkvs) k) (get_prop (JObj ro okvs) k)"
    using assms by (intro same_relationship_populated [of _ i _ r kvs]) blast
  then have "format_key (spread defaultChangeFormatterOptions cfg) (JObj rn nkvs) (JObj ro okvs) k = None"
    by (simp add: format_key_def Let_def)
  then show "\<exists>res. formatChanges (JObj rn nkvs) (JObj ro okvs) cfg = Inr res \<and> k \<notin> set (keys_of res)"
    by (rule formatChanges_key_absent)
  from same have "extract_key (JObj rn nkvs) (JObj ro okvs) depth max_depth ex k = None"
    by (simp add: extract_key_def Let_def)
  then show "k \<notin> set (keys_of (extractMeaningfulChanges (JObj rn nkvs) (JObj ro okvs) depth max_depth ex))"
    by (rule extract_key_absent)
next
  let ?nd = "JObj r1 [(''author'', JObj r2 [(''id'', JStr ''u1''), (''name'', JStr ''X'')])]"
  let ?od = "JObj r3 [(''author'', JStr ''u1'')]"
  have "same_relationship (get_prop ?nd ''author'') (get_prop ?od ''author'')"
    by (simp add: same_relationship_def)
  then have "format_key (spread defaultChangeFormatterOptions cfg) ?nd ?od ''author'' = None"
    by (simp add: format_key_def Let_def)
  then show "formatChanges ?nd ?od cfg = Inr JNull"
    by (rule formatChanges_single_none)
qed

text \<open>The reverse direction, beside a title that does change: the populated author is the
  old value, the bare id the new one.\<close>

theorem relationship_collapse_witness:
  "get_prop (JObj 1 [(''title'', JStr ''T2''), (''author'', JStr ''u1'')]) ''author'' = JStr ''u1''
   \<and> get_prop (JObj 2 [(''title'', JStr ''T1''),
                       (''author'', JObj 3 [(''id'', JStr ''u1''), (''name'', JStr ''X'')])]) ''author''
       = JObj 3 [(''id'', JStr ''u1''), (''name'', JStr ''X'')]
   \<and> get_prop (JObj 3 [(''id'', JStr ''u1''), (''name'', JStr ''X'')]) ''id'' = JStr ''u1''
   \<and> (\<exists>res. formatChanges
          (JObj 1 [(''title'', JStr ''T2''), (''author'', JStr ''u1'')])
          (JObj 2 [(''title'', JStr ''T1''),
                   (''author'', JObj 3 [(''id'', JStr ''u1''), (''name'', JStr ''X'')])])
          \<lparr> excludeFields = None, meaningfulChangesOnly = None, maxDepth = None \<rparr> = Inr res
        \<and> ''author'' \<notin> set (keys_of res))
   \<and> ''author'' \<notin> set (keys_of (extractMeaningfulChanges
          (JObj 1 [(''title'', JStr ''T2''), (''author'', JStr ''u1'')])
          (JObj 2 [(''title'', JStr ''T1''),
                   (''author'', JObj 3 [(''id'', JStr ''u1''), (''name'', JStr ''X'')])])
          1 2 []))
   \<and> formatChanges
        (JObj 4 [(''author'', JObj 5 [(''id'', JStr ''u1''), (''name'', JStr ''X'')])])
        (JObj 6 [(''author'', JStr ''u1'')])
        \<lparr> excludeFields = None, meaningfulChangesOnly = None, maxDepth = None \<rparr> = Inr JNull"
proof -
  let ?nd = "JObj 1 [(''title'', JStr ''T2''), (''author'', JStr ''u1'')]"
  let ?a = "JObj 3 [(''id'', JStr ''u1''), (''name'', JStr ''X'')]"
  let ?od = "JObj 2 [(''title'', JStr ''T1''), (''author'', ?a)]"
  have h1: "get_prop ?nd ''author'' = JStr ''u1''" by simp
  have h2: "get_prop ?od ''author'' = ?a" by simp
  have h3: "get_prop ?a ''id'' = JStr ''u1''" by simp
  have h: "(get_prop ?od ''author'' = JStr ''u1'' \<and> get_prop ?nd ''author'' = ?a
              \<and> get_prop ?a ''id'' = JStr ''u1'')
         \<or> (get_prop ?nd ''author'' = JStr ''u1'' \<and> get_prop ?od ''author'' = ?a
              \<and> get_prop ?a ''id'' = JStr ''u1'')"
    using h1 h2 h3 by blast
  from relationship_collapse [OF h,
      where cfg = "\<lparr> excludeFields = None, meaningfulChangesOnly = None, maxDepth = None \<rparr>"
        and depth = 1 and max_depth = 2 and ex = "[]"
        and ?r1.0 = 4 and ?r2.0 = 5 and ?r3.0 = 6]
    h1 h2 h3
  show ?thesis by blast
qed

section \<open>Arrays with the same ids\<close>

lemma extract_arrays_same_ids:
  assumes "length ns = length os"
      and "length (filter truthy (map id_of ns)) = length (filter truthy (map id_of os))"
      and "list_all (array_includes (filter truthy (map id_of os))) (filter truthy (map id_of ns))"
  shows "extractMeaningfulChanges (JArr r ns) (JArr r' os) d m ex = JNull"
  using assms by (subst extractMeaningfulChanges.simps) (simp add: Let_def)

text \<open>
  Claim C10. With \<^verbatim>\<open>meaningfulChangesOnly\<close>, a field that holds two arrays of the same
  length is left out of the change-set as soon as the two arrays give as many ids and each
  id of the new array is among the ids of the old one. So \<^verbatim>\<open>[{id: "a"}, {id: "b"}]\<close>
  before and \<^verbatim>\<open>[{id: "a"}, {id: "a"}]\<close> after, whose sets of ids differ, count as
  unchanged, and \<^verbatim>\<open>formatChanges\<close> on documents with this one field returns \<^verbatim>\<open>null\<close>.
\<close>

theorem same_ids_array_unchanged:
  assumes "meaningfulChangesOnly cfg \<noteq> Some False"
      and "get_prop (JObj rn nkvs) k = JArr r ns"
      and "get_prop (JObj ro okvs) k = JArr r' os"
      and "length ns = length os"
      and "length (filter truthy (map id_of ns)) = length (filter truthy (map id_of os))"
      and "list_all (array_includes (filter truthy (map id_of os))) (filter truthy (map id_of ns))"
  shows "(\<exists>res. formatChanges (JObj rn nkvs) (JObj ro okvs) cfg = Inr res \<and> k \<notin> set (keys_of res))
       \<and> set (map id_of [JObj r3 [(''id'', JStr ''a'')], JObj r4 [(''id'', JStr ''a'')]])
           \<noteq> set (map id_of [JObj r7 [(''id'', JStr ''a'')], JObj r8 [(''id'', JStr ''b'')]])
       \<and> formatChanges
            (JObj r1 [(f, JArr r2 [JObj r3 [(''id'', JStr ''a'')], JObj r4 [(''id'', JStr ''a'')]])])
            (JObj r5 [(f, JArr r6 [JObj r7 [(''id'', JStr ''a'')], JObj r8 [(''id'', JStr ''b'')]])])
            cfg = Inr JNull"
proof (intro conjI)
  show "\<exists>res. formatChanges (JObj rn nkvs) (JObj ro okvs) cfg = Inr res \<and> k \<notin> set (keys_of res)"
    using assms
    by (intro formatChanges_key_absent format_key_meaningful_none)
       (simp_all add: extract_arrays_same_ids)
next
  show "set (map id_of [JObj r3 [(''id'', JStr ''a'')], JObj r4 [(''id'', JStr ''a'')]])
           \<noteq> set (map id_of [JObj r7 [(''id'', JStr ''a'')], JObj r8 [(''id'', JStr ''b'')]])"
    by (simp add: id_of_def)
next
  show "formatChanges
            (JObj r1 [(f, JArr r2 [JObj r3 [(''id'', JStr ''a'')], JObj r4 [(''id'', JStr ''a'')]])])
            (JObj r5 [(f, JArr r6 [JObj r7 [(''id'', JStr ''a'')], JObj r8 [(''id'', JStr ''b'')]])])
            cfg = Inr JNull"
    using assms(1)
    by (intro formatChanges_single_none format_key_meaningful_none)
       (simp_all add: extract_arrays_same_ids id_of_def array_includes_def same_value_zero_def)
qed

text \<open>Two arrays of id strings under the default configuration: the second id changes to
  a copy of the first.\<close>

theorem same_ids_array_unchanged_witness:
  "meaningfulChangesOnly \<lparr> excludeFields = None, meaningfulChangesOnly = None, maxDepth = None \<rparr>
     \<noteq> Some False
   \<and> get_prop (JObj 1 [(''tags'', JArr 2 [JStr ''tag-0001'', JStr ''tag-0001''])]) ''tags''
       = JArr 2 [JStr ''tag-0001'', JStr ''tag-0001'']
   \<and> get_prop (JObj 3 [(''tags'', JArr 4 [JStr ''tag-0001'', JStr ''tag-0002''])]) ''tags''
       = JArr 4 [JStr ''tag-0001'', JStr ''tag-0002'']
   \<and> list_all (array_includes (filter truthy (map id_of [JStr ''tag-0001'', JStr ''tag-0002''])))
        (filter truthy (map id_of [JStr ''tag-0001'', JStr ''tag-0001'']))
   \<and> (\<exists>res. formatChanges
          (JObj 1 [(''tags'', JArr 2 [JStr ''tag-0001'', JStr ''tag-0001''])])
          (JObj 3 [(''tags'', JArr 4 [JStr ''tag-0001'', JStr ''tag-0002''])])
          \<lparr> excludeFields = None, meaningfulChangesOnly = None, maxDepth = None \<rparr> = Inr res
        \<and> ''tags'' \<notin> set (keys_of res))"
proof -
  let ?cfg = "\<lparr> excludeFields = None, meaningfulChangesOnly = None, maxDepth = None \<rparr>"
  let ?ns = "[JStr ''tag-0001'', JStr ''tag-0001'']" and ?os = "[JStr ''tag-0001'', JStr ''tag-0002'']"
  have h1: "meaningfulChangesOnly ?cfg \<noteq> Some False" by simp
  have h2: "get_prop (JObj 1 [(''tags'', JArr 2 ?ns)]) ''tags'' = JArr 2 ?ns" by simp
  have h3: "get_prop (JObj 3 [(''tags'', JArr 4 ?os)]) ''tags'' = JArr 4 ?os" by simp
  have h4: "length ?ns = length ?os" by simp
  have h5: "length (filter truthy (map id_of ?ns)) = length (filter truthy (map id_of ?os))"
    by (simp add: id_of_def)
  have h6: "list_all (array_includes (filter truthy (map id_of ?os))) (filter truthy (map id_of ?ns))"
    by (simp add: id_of_def array_includes_def same_value_zero_def)
  from same_ids_array_unchanged [OF h1 h2 h3 h4 h5 h6] h1 h2 h3 h6
  show ?thesis by blast
qed

section \<open>The depth limit\<close>

text \<open>An unchanged value has an unchanged identifier, and the identifier is not \<^verbatim>\<open>NaN\<close>.\<close>

lemma forget_id_of:
  assumes "forget_refs x = forget_refs y"
  shows "forget_refs (id_of x) = forget_refs (id_of y)"
proof (cases x)
  case (JObj r kvs)
  with assms obtain r' kvs' where y: "y = JObj r' kvs'" by (cases y) auto
  from assms JObj y have "forget_refs (get_prop (JObj r kvs) ''id'') = forget_refs (get_prop (JObj r' kvs') ''id'')"
    by (intro forget_get_prop) simp
  with JObj y show ?thesis by (simp add: id_of_def)
qed (use assms in \<open>cases y; auto simp: id_of_def\<close>)+

lemma forget_not_cell: "\<not> is_cell v \<Longrightarrow> forget_refs v = forget_refs w \<Longrightarrow> v = w"
  by (cases v; cases w) auto

lemma nan_free_id_of: "nan_free x \<Longrightarrow> id_of x \<noteq> JNaN"
proof (cases x)
  case (JObj r kvs)
  assume "nan_free x"
  with JObj have "nan_free (get_prop (JObj r kvs) ''id'')" by (intro nan_free_get_prop) simp
  with JObj show ?thesis by (auto simp: id_of_def)
qed (auto simp: id_of_def)

lemma extract_key_unchanged:
  assumes "unchanged (get_prop nv k) (get_prop ov k)"
      and "\<not> is_cell (id_of (get_prop nv k))"
  shows "extract_key nv ov d m ex k = None"
proof -
  let ?x = "get_prop nv k" and ?y = "get_prop ov k"
  from assms(1) have same: "forget_refs ?x = forget_refs ?y" and free: "nan_free ?x"
    by (simp_all add: unchanged_def)
  from same have rel: "\<not> same_relationship ?x ?y" by (rule same_relationship_copies)
  from forget_not_cell [OF assms(2) forget_id_of [OF same]] have ids: "id_of ?y = id_of ?x" by simp
  from free have "strict_eq (id_of ?x) (id_of ?x)" by (intro strict_eq_refl nan_free_id_of)
  with rel ids unchanged_extract [OF assms(1)] show ?thesis
    by (simp add: extract_key_def Let_def)
qed

lemma extract_all_none:
  assumes "\<not> d > m" "is_keyed_map nv" "is_keyed_map ov"
      and "\<forall>k\<in>set (keys_of nv @ keys_of ov). extract_key nv ov d m ex k = None"
  shows "extractMeaningfulChanges nv ov d m ex = JNull"
proof (cases "deepEqual nv ov d m")
  case True
  then show ?thesis by (subst extractMeaningfulChanges.simps) simp
next
  case False
  have "\<forall>k\<in>set (new_Set (keys_of nv @ keys_of ov)). extract_key nv ov d m ex k = None"
    using assms(4) by (simp only: set_new_Set)
  then have "assign_all (extract_key nv ov d m ex) (new_Set (keys_of nv @ keys_of ov)) ([], False)
      = ([], False)"
    by (rule assign_all_none)
  then show ?thesis
    using extract_keyed [OF assms(1) False assms(2,3), of ex] by (simp add: Let_def)
qed

text \<open>At depth \<open>d\<close> there are \<open>maxDepth - d + 1\<close> levels left before the depth passes
  \<^verbatim>\<open>maxDepth\<close>; what differs only below them is no change for the differ.\<close>

lemma differ_only_below_extract:
  "differ_only_below n nv ov \<Longrightarrow> n = nat (m - d + 1) \<Longrightarrow>
   extractMeaningfulChanges nv ov d m ex = JNull"
proof (induction n arbitrary: nv ov d)
  case 0
  then have "d > m" by simp
  then show ?case by (rule extract_beyond)
next
  case (Suc n)
  then have d: "\<not> d > m" and n: "n = nat (m - (d + 1) + 1)" by auto
  show ?case
  proof (cases "unchanged nv ov")
    case True
    then show ?thesis by (rule unchanged_extract)
  next
    case False
    with Suc.prems(1) have keyed: "is_keyed_map nv" "is_keyed_map ov"
      and each: "\<forall>k\<in>set (keys_of nv @ keys_of ov).
          (unchanged (get_prop nv k) (get_prop ov k) \<and> \<not> is_cell (id_of (get_prop nv k))) \<or>
          (\<not> isRelationshipField k (get_prop nv k) \<and> \<not> isRelationshipField k (get_prop ov k)
           \<and> differ_only_below n (get_prop nv k) (get_prop ov k))"
      by (auto simp: list_all_iff)
    have "extract_key nv ov d m ex k = None" if k: "k \<in> set (keys_of nv @ keys_of ov)" for k
    proof (cases "unchanged (get_prop nv k) (get_prop ov k) \<and> \<not> is_cell (id_of (get_prop nv k))")
      case True
      then show ?thesis by (intro extract_key_unchanged) simp_all
    next
      case False
      with each k have rel: "\<not> isRelationshipField k (get_prop nv k)"
          "\<not> isRelationshipField k (get_prop ov k)"
        and below: "differ_only_below n (get_prop nv k) (get_prop ov k)" by blast+
      from Suc.IH [OF below n]
      have "extractMeaningfulChanges (get_prop nv k) (get_prop ov k) (d + 1) m ex = JNull" .
      with rel show ?thesis by (simp add: extract_key_def Let_def)
    qed
    then show ?thesis
      using d keyed by (intro extract_all_none) auto
  qed
qed

text \<open>
  Claim C1, as the code has it. For every pair of documents and every configuration with
  \<^verbatim>\<open>meaningfulChangesOnly\<close>, when the two values of a field differ only at a nesting depth
  greater than \<^verbatim>\<open>maxDepth\<close>, \<^verbatim>\<open>formatChanges\<close> reports nothing for the field: the differ
  answers \<^verbatim>\<open>null\<close> at every depth greater than \<^verbatim>\<open>maxDepth\<close>, so the field is left out of
  the change-set. The limit is \<^verbatim>\<open>opts.maxDepth || 5\<close>, and the field's own values are at
  depth 0. Above the limit the two values are keyed maps, and each of their fields either
  is unchanged (the same up to the cells that hold its objects and arrays, with no \<^verbatim>\<open>NaN\<close>
  in it, and no object or array as its identifier) or is not reference-shaped and again
  differs only below the limit.
\<close>

theorem deep_changes_dropped:
  assumes "meaningfulChangesOnly cfg \<noteq> Some False"
      and "differ_only_below (nat (maxDepth_or_5 (spread defaultChangeFormatterOptions cfg) + 1))
             (get_prop (JObj rn nkvs) k) (get_prop (JObj ro okvs) k)"
  shows "(\<exists>res. formatChanges (JObj rn nkvs) (JObj ro okvs) cfg = Inr res \<and> k \<notin> set (keys_of res))
       \<and> (depth > max_depth \<longrightarrow> extractMeaningfulChanges nv ov depth max_depth ex = JNull)"
proof
  show "\<exists>res. formatChanges (JObj rn nkvs) (JObj ro okvs) cfg = Inr res \<and> k \<notin> set (keys_of res)"
    using assms
    by (intro formatChanges_key_absent format_key_meaningful_none
          differ_only_below_extract [OF assms(2)])
       simp_all
next
  show "depth > max_depth \<longrightarrow> extractMeaningfulChanges nv ov depth max_depth ex = JNull"
    by (simp add: extract_beyond)
qed

text \<open>Under the default configuration (\<^verbatim>\<open>maxDepth = 2\<close>), the two documents
  \<^verbatim>\<open>{a: {tags: ['x'], b: {c: {d: 2}}}}\<close> and \<^verbatim>\<open>{a: {tags: ['x'], b: {c: {d: 1}}}}\<close>, no
  object or array of the one shared with the other: the number at depth 3 changes, the
  array at depth 1 does not; and the differ, asked at depth 3 about the two numbers,
  answers \<^verbatim>\<open>null\<close>.\<close>

theorem deep_changes_dropped_witness:
  "meaningfulChangesOnly \<lparr> excludeFields = None, meaningfulChangesOnly = None, maxDepth = None \<rparr>
     \<noteq> Some False
   \<and> differ_only_below
       (nat (maxDepth_or_5 (spread defaultChangeFormatterOptions
          \<lparr> excludeFields = None, meaningfulChangesOnly = None, maxDepth = None \<rparr>) + 1))
       (get_prop (JObj 1 [(''a'', JObj 2 [(''tags'', JArr 3 [JStr ''x'']),
            (''b'', JObj 4 [(''c'', JObj 5 [(''d'', JNum 2)])])])]) ''a'')
       (get_prop (JObj 6 [(''a'', JObj 7 [(''tags'', JArr 8 [JStr ''x'']),
            (''b'', JObj 9 [(''c'', JObj 10 [(''d'', JNum 1)])])])]) ''a'')
   \<and> (\<exists>res. formatChanges
          (JObj 1 [(''a'', JObj 2 [(''tags'', JArr 3 [JStr ''x'']),
            (''b'', JObj 4 [(''c'', JObj 5 [(''d'', JNum 2)])])])])
          (JObj 6 [(''a'', JObj 7 [(''tags'', JArr 8 [JStr ''x'']),
            (''b'', JObj 9 [(''c'', JObj 10 [(''d'', JNum 1)])])])])
          \<lparr> excludeFields = None, meaningfulChangesOnly = None, maxDepth = None \<rparr> = Inr res
        \<and> ''a'' \<notin> set (keys_of res))
   \<and> (3::int) > 2
   \<and> extractMeaningfulChanges (JNum 2) (JNum 1) 3 2 [] = JNull"
proof -
  let ?cfg = "\<lparr> excludeFields = None, meaningfulChangesOnly = None, maxDepth = None \<rparr>"
  let ?new = "JObj 1 [(''a'', JObj 2 [(''tags'', JArr 3 [JStr ''x'']),
            (''b'', JObj 4 [(''c'', JObj 5 [(''d'', JNum 2)])])])]"
  let ?old = "JObj 6 [(''a'', JObj 7 [(''tags'', JArr 8 [JStr ''x'']),
            (''b'', JObj 9 [(''c'', JObj 10 [(''d'', JNum 1)])])])]"
  have h1: "meaningfulChangesOnly ?cfg \<noteq> Some False" by simp
  have h2: "differ_only_below
       (nat (maxDepth_or_5 (spread defaultChangeFormatterOptions ?cfg) + 1))
       (get_prop ?new ''a'') (get_prop ?old ''a'')"
    by code_simp
  have h3: "(3::int) > 2" by simp
  from deep_changes_dropped [OF h1 h2, where depth = 3 and max_depth = 2 and nv = "JNum 2"
      and ov = "JNum 1" and ex = "[]"] h1 h2 h3
  show ?thesis by blast
qed

text \<open>
  The claim C1 as first stated asks for the subtree to be recorded as one replacement, and
  for the field not to be reported as unchanged. Under the default configuration
  (\<^verbatim>\<open>maxDepth = 2\<close>) the number at depth 3 changes from 1 to 2, and \<^verbatim>\<open>formatChanges\<close>
  returns \<^verbatim>\<open>null\<close>: no field is recorded at all.
\<close>

theorem deep_change_reported_as_no_change:
  "formatChanges
     (JObj 1 [(''a'', JObj 2 [(''b'', JObj 3 [(''c'', JObj 4 [(''d'', JNum 2)])])])])
     (JObj 5 [(''a'', JObj 6 [(''b'', JObj 7 [(''c'', JObj 8 [(''d'', JNum 1)])])])])
     \<lparr> excludeFields = None, meaningfulChangesOnly = Some True, maxDepth = None \<rparr>
   = Inr JNull"
  by code_simp

section \<open>Reference-shaped fields of a keyed map\<close>





section \<open>The cascade tracker: source, depth, initialisation\<close>

lemma markAsCascading_context:
  assumes "contexts mgr rid = Some ctx" and "operationStack ctx = Some stack"
  shows "\<exists>ctx'. contexts (markAsCascading rid c i mgr) rid = Some ctx'
           \<and> sourceCollection ctx' = sourceCollection ctx
           \<and> sourceDocumentId ctx' = sourceDocumentId ctx
           \<and> operationStack ctx' = Some (stack @ [c @ '':'' @ i])"
  using assms by (simp add: markAsCascading_def Let_def)

lemma cascades_context:
  assumes "contexts mgr rid = Some ctx" and "operationStack ctx = Some stack"
  shows "\<exists>ctx' stack'. contexts (fold (\<lambda>(c, i). markAsCascading rid c i) later mgr) rid = Some ctx'
           \<and> sourceCollection ctx' = sourceCollection ctx
           \<and> sourceDocumentId ctx' = sourceDocumentId ctx
           \<and> operationStack ctx' = Some stack'
           \<and> length stack' = length stack + length later"
  using assms
proof (induction later arbitrary: mgr ctx stack)
  case Nil
  then show ?case by simp
next
  case (Cons p later)
  obtain c i where p: "p = (c, i)" by (cases p)
  from markAsCascading_context [OF Cons.prems, of c i]
  obtain ctx1 where 1: "contexts (markAsCascading rid c i mgr) rid = Some ctx1"
    and 2: "sourceCollection ctx1 = sourceCollection ctx"
    and 3: "sourceDocumentId ctx1 = sourceDocumentId ctx"
    and 4: "operationStack ctx1 = Some (stack @ [c @ '':'' @ i])" by blast
  from Cons.IH [OF 1 4] 2 3 show ?case by (auto simp: p)
qed

lemma markAsCascading_source:
  assumes "contexts mgr rid = Some ctx"
  shows "\<exists>ctx'. contexts (markAsCascading rid c i mgr) rid = Some ctx'
           \<and> sourceCollection ctx' = sourceCollection ctx
           \<and> sourceDocumentId ctx' = sourceDocumentId ctx"
  using assms by (simp add: markAsCascading_def Let_def)

lemma cascades_keep_source:
  assumes "contexts mgr rid = Some ctx"
  shows "\<exists>ctx'. contexts (fold (\<lambda>(c, i). markAsCascading rid c i) later mgr) rid = Some ctx'
           \<and> sourceCollection ctx' = sourceCollection ctx
           \<and> sourceDocumentId ctx' = sourceDocumentId ctx"
  using assms
proof (induction later arbitrary: mgr ctx)
  case Nil
  then show ?case by simp
next
  case (Cons p later)
  obtain c i where p: "p = (c, i)" by (cases p)
  from markAsCascading_source [OF Cons.prems, of c i]
  obtain ctx1 where 1: "contexts (markAsCascading rid c i mgr) rid = Some ctx1"
    and 2: "sourceCollection ctx1 = sourceCollection ctx"
    and 3: "sourceDocumentId ctx1 = sourceDocumentId ctx" by blast
  from Cons.IH [OF 1] 2 3 show ?case by (simp add: p)
qed

lemma markDirect_sources:
  assumes "request_id req = Some rid"
  shows "\<exists>ctx. contexts (markDirectOperation now req c0 id0 mgr) rid = Some ctx
           \<and> sourceCollection ctx = Some c0 \<and> sourceDocumentId ctx = Some id0"
  using assms
  by (auto simp: markDirectOperation_def getContext_def createContext_def Let_def split: option.splits)

text \<open>
  Claim C2, as the code has it. Take a context whose recorded source is not the queried
  collection and document, with an operation stack of length \<open>L\<close>, and
  \<^verbatim>\<open>allowCascading = true\<close>. Then \<^verbatim>\<open>shouldLogOperation\<close> is false exactly when
  \<open>L \<ge> N'\<close>, where \<open>N'\<close> is \<^verbatim>\<open>maxCascadeDepth\<close> when that is given and not 0, and 1 when
  it is not given or is 0. The same holds after any further mutations are marked as
  cascading, with \<open>L\<close> grown by their number: for \<open>N \<ge> 1\<close> the \<open>N\<close>-th cascading mutation
  of a request is logged and the next one is not.
\<close>

theorem cascade_depth_limit:
  assumes "contexts mgr requestId = Some ctx"
      and "\<not> (sourceCollection ctx = Some collection \<and> sourceDocumentId ctx = Some documentId)"
      and "operationStack ctx = Some stack"
      and "allowCascading options = Some True"
  shows "shouldLogOperation requestId collection documentId options mgr =
           (\<not> int (length stack) \<ge>
                (case maxCascadeDepth options of None \<Rightarrow> 1 | Some n \<Rightarrow> if n = 0 then 1 else n))
       \<and> shouldLogOperation requestId collection documentId options
           (fold (\<lambda>(c, i). markAsCascading requestId c i) later mgr) =
           (\<not> int (length stack + length later) \<ge>
                (case maxCascadeDepth options of None \<Rightarrow> 1 | Some n \<Rightarrow> if n = 0 then 1 else n))"
proof
  show "shouldLogOperation requestId collection documentId options mgr =
           (\<not> int (length stack) \<ge>
                (case maxCascadeDepth options of None \<Rightarrow> 1 | Some n \<Rightarrow> if n = 0 then 1 else n))"
    using assms by (auto simp: shouldLogOperation_def maxCascadeDepth_or_1_def Let_def)
next
  from cascades_context [OF assms(1,3), of later]
  obtain ctx' stack' where
    "contexts (fold (\<lambda>(c, i). markAsCascading requestId c i) later mgr) requestId = Some ctx'"
    "sourceCollection ctx' = sourceCollection ctx" "sourceDocumentId ctx' = sourceDocumentId ctx"
    "operationStack ctx' = Some stack'" "length stack' = length stack + length later"
    by blast
  then show "shouldLogOperation requestId collection documentId options
           (fold (\<lambda>(c, i). markAsCascading requestId c i) later mgr) =
           (\<not> int (length stack + length later) \<ge>
                (case maxCascadeDepth options of None \<Rightarrow> 1 | Some n \<Rightarrow> if n = 0 then 1 else n))"
    using assms(2,4) by (auto simp: shouldLogOperation_def maxCascadeDepth_or_1_def Let_def)
qed

text \<open>A request whose source is \<^verbatim>\<open>contracts/c1\<close>, with \<^verbatim>\<open>maxCascadeDepth = 2\<close>: a mutation
  of a client is logged when nothing or one mutation has cascaded before it, and not when
  two have.\<close>

theorem cascade_depth_limit_witness:
  "contexts (snd (createContext 0 ''r1'' (Some ''contracts'') (Some ''c1'') auditContextManager)) ''r1''
     = Some (fst (createContext 0 ''r1'' (Some ''contracts'') (Some ''c1'') auditContextManager))
   \<and> operationStack (fst (createContext 0 ''r1'' (Some ''contracts'') (Some ''c1'') auditContextManager))
       = Some []
   \<and> shouldLogOperation ''r1'' ''clients'' ''cl1''
       \<lparr> allowCascading = Some True, maxCascadeDepth = Some 2 \<rparr>
       (snd (createContext 0 ''r1'' (Some ''contracts'') (Some ''c1'') auditContextManager)) = True
   \<and> shouldLogOperation ''r1'' ''clients'' ''cl1''
       \<lparr> allowCascading = Some True, maxCascadeDepth = Some 2 \<rparr>
       (fold (\<lambda>(c, i). markAsCascading ''r1'' c i) [(''users'', ''u1'')]
          (snd (createContext 0 ''r1'' (Some ''contracts'') (Some ''c1'') auditContextManager))) = True
   \<and> shouldLogOperation ''r1'' ''clients'' ''cl1''
       \<lparr> allowCascading = Some True, maxCascadeDepth = Some 2 \<rparr>
       (fold (\<lambda>(c, i). markAsCascading ''r1'' c i) [(''users'', ''u1''), (''users'', ''u2'')]
          (snd (createContext 0 ''r1'' (Some ''contracts'') (Some ''c1'') auditContextManager))) = False"
proof -
  let ?init = "createContext 0 ''r1'' (Some ''contracts'') (Some ''c1'') auditContextManager"
  let ?opts = "\<lparr> allowCascading = Some True, maxCascadeDepth = Some (2::int) \<rparr>"
  have h1: "contexts (snd ?init) ''r1'' = Some (fst ?init)"
    by (simp add: createContext_def Let_def)
  have h2: "\<not> (sourceCollection (fst ?init) = Some ''clients'' \<and> sourceDocumentId (fst ?init) = Some ''cl1'')"
    by (simp add: createContext_def Let_def)
  have h3: "operationStack (fst ?init) = Some []"
    by (simp add: createContext_def Let_def)
  have h4: "allowCascading ?opts = Some True" by simp
  note limit = cascade_depth_limit [OF h1 h2 h3 h4]
  from limit [of "[]"] limit [of "[(''users'', ''u1'')]"] limit [of "[(''users'', ''u1''), (''users'', ''u2'')]"]
    h1 h3
  show ?thesis by simp
qed

text \<open>
  The claim C2 as first stated has \<open>N = 0\<close> refuse every mutation that is not the source.
  With \<^verbatim>\<open>maxCascadeDepth = 0\<close> and an empty stack (\<open>L = 0 \<ge> N\<close>) a mutation of a client in
  a request whose source is a contract is logged: the depth 0 is read as the default 1.
\<close>

theorem zero_depth_logs_first_cascade:
  "map_option operationStack (getContext ''r1''
       (markDirectOperation 0 \<lparr> auditRequestId = Some ''r1'' \<rparr> ''contracts'' ''c1'' auditContextManager))
     = Some (Some [])
   \<and> int (length ([] :: string list)) \<ge> 0
   \<and> shouldLogOperation ''r1'' ''clients'' ''cl1''
       \<lparr> allowCascading = Some True, maxCascadeDepth = Some 0 \<rparr>
       (markDirectOperation 0 \<lparr> auditRequestId = Some ''r1'' \<rparr> ''contracts'' ''c1'' auditContextManager)
     = True"
  by (simp add: auditContextManager_def shouldLogOperation_def maxCascadeDepth_or_1_def
        markDirectOperation_def request_id_def getContext_def createContext_def Let_def)

text \<open>
  Claim C3, as the code has it. \<^verbatim>\<open>initializeAuditContext\<close> generates a request id and
  stores it on the request; the registry is left as it was. No tracking context is
  allocated: a token that had no context has none afterwards, and every mutation asked
  about under it is to be logged. The context is created, already sourced, by the first
  \<^verbatim>\<open>markDirectOperation\<close>.
\<close>

theorem initialize_allocates_nothing:
  "case initializeAuditContext now rnd req mgr of
     (requestId, req', mgr') \<Rightarrow>
       requestId = generateRequestId now rnd
       \<and> auditRequestId req' = Some requestId
       \<and> mgr' = mgr
       \<and> (getContext requestId mgr = None \<longrightarrow>
            getContext requestId mgr' = None
            \<and> shouldLogAuditOperation req' collection documentId options mgr' = True
            \<and> getContext requestId (markDirectOperation now' req' collection documentId mgr')
                = Some \<lparr> sourceCollection = Some collection,
                         sourceDocumentId = Some documentId,
                         isDirectOperation = Some True,
                         timestamp = Some now',
                         operationStack = Some [] \<rparr>)"
  by (auto simp: initializeAuditContext_def Let_def getContext_def shouldLogAuditOperation_def
        request_id_def shouldLogOperation_def generateRequestId_def markDirectOperation_def
        createContext_def split: option.splits)

text \<open>A first request on the manager as it starts.\<close>

theorem initialize_allocates_nothing_witness:
  "getContext (generateRequestId 1700000000000 ''k3j9x2m1q'') auditContextManager = None
   \<and> (case initializeAuditContext 1700000000000 ''k3j9x2m1q'' \<lparr> auditRequestId = None \<rparr>
             auditContextManager of
        (requestId, req', mgr') \<Rightarrow>
          mgr' = auditContextManager
          \<and> getContext requestId mgr' = None
          \<and> shouldLogAuditOperation req' ''contracts'' ''c1''
               \<lparr> allowCascading = Some False, maxCascadeDepth = None \<rparr> mgr' = True
          \<and> map_option sourceCollection
               (getContext requestId (markDirectOperation 1700000000001 req' ''contracts'' ''c1'' mgr'))
              = Some (Some ''contracts''))"
proof -
  have h: "getContext (generateRequestId 1700000000000 ''k3j9x2m1q'') auditContextManager = None"
    by (simp add: getContext_def auditContextManager_def)
  from initialize_allocates_nothing [where now = 1700000000000 and rnd = "''k3j9x2m1q''"
      and req = "\<lparr> auditRequestId = None \<rparr>" and mgr = auditContextManager
      and collection = "''contracts''" and documentId = "''c1''" and now' = 1700000000001
      and options = "\<lparr> allowCascading = Some False, maxCascadeDepth = None \<rparr>"]
    h
  show ?thesis by (auto split: prod.splits)
qed

text \<open>
  The claim C3 as first stated has a context allocated for the token and retrievable from
  the registry. After \<^verbatim>\<open>initializeAuditContext\<close> on the manager as it starts, the registry
  has no context for the token that was issued.
\<close>

theorem initialize_leaves_token_without_context:
  "(case initializeAuditContext 1700000000000 ''k3j9x2m1q'' \<lparr> auditRequestId = None \<rparr>
          auditContextManager of
      (requestId, req', mgr') \<Rightarrow> getContext requestId mgr' = None)"
  by (simp add: initializeAuditContext_def Let_def getContext_def auditContextManager_def)

text \<open>
  Claim C8. In a request whose first mutation \<open>(c0, id0)\<close> is recorded by
  \<^verbatim>\<open>markDirectOperation\<close> and whose later mutations are all recorded by
  \<^verbatim>\<open>markCascadingOperation\<close>, \<^verbatim>\<open>shouldLogAuditOperation\<close> for \<open>(c0, id0)\<close> is true, for
  every setting of \<^verbatim>\<open>allowCascading\<close> and \<^verbatim>\<open>maxCascadeDepth\<close>, whatever the registry held
  before.
\<close>

theorem source_always_logged:
  "shouldLogAuditOperation req c0 id0 options
     (fold (\<lambda>(c, i). markCascadingOperation req c i) later (markDirectOperation now req c0 id0 mgr))
   = True"
proof (cases "request_id req")
  case None
  then show ?thesis by (simp add: shouldLogAuditOperation_def)
next
  case (Some rid)
  have eq: "(\<lambda>(c, i). markCascadingOperation req c i) = (\<lambda>(c, i). markAsCascading rid c i)"
    using Some by (simp add: markCascadingOperation_def fun_eq_iff)
  from markDirect_sources [OF Some, of now c0 id0 mgr]
  obtain ctx where "contexts (markDirectOperation now req c0 id0 mgr) rid = Some ctx"
    and "sourceCollection ctx = Some c0" and "sourceDocumentId ctx = Some id0" by blast
  with cascades_keep_source [of "markDirectOperation now req c0 id0 mgr" rid ctx later]
  obtain ctx' where "contexts (fold (\<lambda>(c, i). markAsCascading rid c i) later
        (markDirectOperation now req c0 id0 mgr)) rid = Some ctx'"
    and "sourceCollection ctx' = Some c0" and "sourceDocumentId ctx' = Some id0" by auto
  then show ?thesis
    using Some by (simp add: shouldLogAuditOperation_def shouldLogOperation_def eq)
qed

text \<open>A contract is updated, then a client and a user in its wake; cascading is off.\<close>

theorem source_always_logged_witness:
  "shouldLogAuditOperation \<lparr> auditRequestId = Some ''r1'' \<rparr> ''contracts'' ''c1''
     \<lparr> allowCascading = Some False, maxCascadeDepth = Some 0 \<rparr>
     (fold (\<lambda>(c, i). markCascadingOperation \<lparr> auditRequestId = Some ''r1'' \<rparr> c i)
        [(''clients'', ''cl1''), (''users'', ''u1'')]
        (markDirectOperation 0 \<lparr> auditRequestId = Some ''r1'' \<rparr> ''contracts'' ''c1''
           auditContextManager))
   = True"
  by (rule source_always_logged)

end
